theory Spec2Isabelle
  imports Main "HOL-Library.AList"
begin

section \<open>Documents and the Python primitives used by \<open>project_files.py\<close>\<close>

text \<open>
  A parsed YAML document is a scalar, a sequence or a mapping. Mappings keep their
  insertion order (\<open>CommentedMap\<close> is an ordered dict), so a mapping is an association
  list with string keys; a Python dict has each key once, which is the predicate
  \<open>wf_val\<close> below. Scalars are strings, integers and \<open>None\<close> (booleans and floats,
  whose Python equality identifies \<open>1\<close>, \<open>True\<close> and \<open>1.0\<close>, are left out).
  Formatting metadata (comments) is not modelled; \<open>copy.deepcopy\<close> is the identity on
  these immutable values.
\<close>

datatype scalar = SStr string | SInt int | SNone

datatype val = Scalar scalar | Seq "val list" | Map "(string \<times> val) list"

type_synonym dict = "(string \<times> val) list"

datatype error =
    AttributeError
  | TypeError
  | KeyError string
  | OSError
  | YAMLError string
  | InvalidIncludePath string
  | Exception string

definition bind_err :: "error + 'a \<Rightarrow> ('a \<Rightarrow> error + 'b) \<Rightarrow> error + 'b" where
  "bind_err m f = (case m of Inl e \<Rightarrow> Inl e | Inr x \<Rightarrow> f x)"

text \<open>\<open>d.setdefault(key, default)\<close>: the value found, or the default, which is then
  stored under a new last key. The pair is the returned node and the dict afterwards.\<close>

definition setdefault :: "('k \<times> 'v) list \<Rightarrow> 'k \<Rightarrow> 'v \<Rightarrow> 'v \<times> ('k \<times> 'v) list" where
  "setdefault d key dflt =
     (case map_of d key of Some v \<Rightarrow> (v, d) | None \<Rightarrow> (dflt, d @ [(key, dflt)]))"

text \<open>\<open>v.get(key, default)\<close>; only a mapping has \<open>get\<close>.\<close>

definition py_get :: "val \<Rightarrow> string \<Rightarrow> val \<Rightarrow> error + val" where
  "py_get v key dflt =
     (case v of
        Map d \<Rightarrow> Inr (case map_of d key of Some x \<Rightarrow> x | None \<Rightarrow> dflt)
      | _ \<Rightarrow> Inl AttributeError)"

text \<open>\<open>v[key]\<close> with a string key: \<open>KeyError\<close> on a mapping without the key,
  \<open>TypeError\<close> on a sequence, a string, a number or \<open>None\<close>.\<close>

definition py_getitem :: "val \<Rightarrow> string \<Rightarrow> error + val" where
  "py_getitem v key =
     (case v of
        Map d \<Rightarrow> (case map_of d key of Some x \<Rightarrow> Inr x | None \<Rightarrow> Inl (KeyError key))
      | _ \<Rightarrow> Inl TypeError)"

text \<open>\<open>v.items()\<close>; only a mapping has \<open>items\<close>.\<close>

definition py_items :: "val \<Rightarrow> error + dict" where
  "py_items v = (case v of Map d \<Rightarrow> Inr d | _ \<Rightarrow> Inl AttributeError)"

text \<open>\<open>for x in v\<close>: the items of a sequence, the keys of a mapping, the characters of
  a string; a number and \<open>None\<close> are not iterable.\<close>

definition py_iter :: "val \<Rightarrow> error + val list" where
  "py_iter v =
     (case v of
        Seq xs \<Rightarrow> Inr xs
      | Map d \<Rightarrow> Inr (map (\<lambda>kv. Scalar (SStr (fst kv))) d)
      | Scalar (SStr s) \<Rightarrow> Inr (map (\<lambda>c. Scalar (SStr [c])) s)
      | Scalar _ \<Rightarrow> Inl TypeError)"

text \<open>Hashing, as a dict key, a set element or a component of a tuple key: sequences
  and mappings are unhashable.\<close>

definition py_hash :: "val \<Rightarrow> error + scalar" where
  "py_hash v = (case v of Scalar s \<Rightarrow> Inr s | _ \<Rightarrow> Inl TypeError)"

section \<open>\<open>deep_merge\<close>\<close>

text \<open>
  \<open>merge_items base items\<close> is the inner loop \<open>for key, value in child.items()\<close> of
  \<open>deep_merge\<close>, run on the current \<open>base\<close>. A \<open>base\<close> that is no mapping has neither
  \<open>setdefault\<close> (\<open>AttributeError\<close>) nor item assignment by a string key
  (\<open>TypeError\<close>); a node that is no sequence has no \<open>extend\<close>.
\<close>

fun deep_merge :: "val \<Rightarrow> val list \<Rightarrow> error + val"
and merge_items :: "val \<Rightarrow> dict \<Rightarrow> error + val" where
  "deep_merge base [] = Inr base"
| "deep_merge base (Map items # children) =
     (case merge_items base items of
        Inl e \<Rightarrow> Inl e
      | Inr base' \<Rightarrow> deep_merge base' children)"
| "deep_merge base (_ # children) = Inl AttributeError"
| "merge_items base [] = Inr base"
| "merge_items base ((key, Map m) # items) =
     (case base of
        Map b \<Rightarrow>
          (case deep_merge (fst (setdefault b key (Map []))) [Map m] of
             Inl e \<Rightarrow> Inl e
           | Inr r \<Rightarrow>
               merge_items (Map (AList.update key r (snd (setdefault b key (Map []))))) items)
      | _ \<Rightarrow> Inl AttributeError)"
| "merge_items base ((key, Seq ys) # items) =
     (case base of
        Map b \<Rightarrow>
          (case fst (setdefault b key (Seq [])) of
             Seq xs \<Rightarrow>
               merge_items
                 (Map (AList.update key (Seq (xs @ ys)) (snd (setdefault b key (Seq []))))) items
           | _ \<Rightarrow> Inl AttributeError)
      | _ \<Rightarrow> Inl AttributeError)"
| "merge_items base ((key, Scalar s) # items) =
     (case base of
        Map b \<Rightarrow> merge_items (Map (AList.update key (Scalar s) b)) items
      | _ \<Rightarrow> Inl TypeError)"

section \<open>The state of a \<open>ProjectFiles\<close> object and of its environment\<close>

text \<open>
  A path is the string that \<open>str(path)\<close> gives. The file system maps a path to a
  directory or to a regular file, which holds either a document that \<open>yaml.load\<close>
  parses (an empty file parses to \<open>None\<close>) or text on which it raises \<open>YAMLError\<close>
  with some diagnostic. Dumping a document and loading it again is taken to return the
  document.

  The object's fields are \<open>_meltano_file_path\<close>, \<open>_meltano\<close> (here
  \<open>meltano_cache\<close>, \<open>None\<close> when reset) and \<open>_plugin_file_map\<close>; \<open>self.root\<close> is
  used only through \<open>self.root.glob(pattern)\<close>, which is the field \<open>glob\<close>: the
  host's expansion of a pattern against the current file system, taken as given.
  \<open>critical_log\<close> collects the messages of \<open>logger.critical\<close>.
\<close>

type_synonym path = string

datatype entry = Directory | Yaml val | Malformed string

type_synonym key = "scalar list"

record project_files =
  glob :: "(path \<rightharpoonup> entry) \<Rightarrow> string \<Rightarrow> path list"
  meltano_file_path :: path
  meltano_cache :: val
  plugin_file_map :: "key \<rightharpoonup> path"
  fs :: "path \<rightharpoonup> entry"
  critical_log :: "string list"

type_synonym 'a action = "project_files \<Rightarrow> (error + 'a) \<times> project_files"

definition bind_action :: "'a action \<Rightarrow> ('a \<Rightarrow> 'b action) \<Rightarrow> 'b action" where
  "bind_action m f s = (case m s of (Inl e, s') \<Rightarrow> (Inl e, s') | (Inr x, s') \<Rightarrow> f x s')"

definition BLANK_SUBFILE :: val where
  "BLANK_SUBFILE = Map [(''plugins'', Map []), (''schedules'', Seq [])]"

definition reset_cache :: "unit action" where
  "reset_cache s = (Inr (), s\<lparr>meltano_cache := Scalar SNone\<rparr>)"

text \<open>The property \<open>meltano\<close>: the cached root document, read from the root file when
  the cache is \<open>None\<close>.\<close>

definition meltano :: "val action" where
  "meltano s =
     (if meltano_cache s = Scalar SNone then
        (case fs s (meltano_file_path s) of
           Some (Yaml v) \<Rightarrow> (Inr v, s\<lparr>meltano_cache := v\<rparr>)
         | Some (Malformed d) \<Rightarrow> (Inl (YAMLError d), s)
         | _ \<Rightarrow> (Inl OSError, s))
      else (Inr (meltano_cache s), s))"

section \<open>The include resolver\<close>

definition is_file :: "(path \<rightharpoonup> entry) \<Rightarrow> path \<Rightarrow> bool" where
  "is_file f p = (case f p of Some (Yaml _) \<Rightarrow> True | Some (Malformed _) \<Rightarrow> True | _ \<Rightarrow> False)"

definition exists :: "(path \<rightharpoonup> entry) \<Rightarrow> path \<Rightarrow> bool" where
  "exists f p = (f p \<noteq> None)"

definition not_found_message :: "path \<Rightarrow> string" where
  "not_found_message p = ''Included path '' @ [CHR 0x27] @ p @ [CHR 0x27] @ '' not found.''"

definition is_valid_include_path :: "project_files \<Rightarrow> path \<Rightarrow> error + unit" where
  "is_valid_include_path s file_path =
     (if \<not> (is_file (fs s) file_path \<and> exists (fs s) file_path)
      then Inl (InvalidIncludePath (not_found_message file_path))
      else Inr ())"

definition invalid_message :: "path \<Rightarrow> string \<Rightarrow> string" where
  "invalid_message p err =
     ''Include path '' @ [CHR 0x27] @ p @ [CHR 0x27] @ '' is invalid: '' @ [CHR 0x0A] @ '' '' @ err"

text \<open>\<open>list(OrderedDict.fromkeys(xs))\<close>: \<open>fromkeys_acc\<close> inserts the items one by one
  into the ordered dict \<open>seen\<close>, where a key that is already present keeps its place.\<close>

fun fromkeys_acc :: "'a list \<Rightarrow> 'a list \<Rightarrow> 'a list" where
  "fromkeys_acc seen [] = seen"
| "fromkeys_acc seen (x # xs) = fromkeys_acc (if x \<in> set seen then seen else seen @ [x]) xs"

definition fromkeys :: "'a list \<Rightarrow> 'a list" where
  "fromkeys xs = fromkeys_acc [] xs"

text \<open>The inner loop of \<open>_resolve_include_paths\<close>, over the matches of one pattern.\<close>

fun check_paths :: "path list \<Rightarrow> path list \<Rightarrow> (path list) action" where
  "check_paths include_paths [] s = (Inr include_paths, s)"
| "check_paths include_paths (p # ps) s =
     (case is_valid_include_path s p of
        Inl err \<Rightarrow>
          (Inl err,
           s\<lparr>critical_log := critical_log s @
               [invalid_message p (case err of InvalidIncludePath m \<Rightarrow> m | _ \<Rightarrow> [])]\<rparr>)
      | Inr _ \<Rightarrow> check_paths (include_paths @ [p]) ps s)"

text \<open>The outer loop, over the patterns; \<open>glob\<close> wants a string.\<close>

fun resolve_patterns :: "path list \<Rightarrow> val list \<Rightarrow> (path list) action" where
  "resolve_patterns include_paths [] s = (Inr include_paths, s)"
| "resolve_patterns include_paths (Scalar (SStr pattern) # patterns) s =
     (case check_paths include_paths (glob s (fs s) pattern) s of
        (Inl e, s') \<Rightarrow> (Inl e, s')
      | (Inr include_paths', s') \<Rightarrow>
          resolve_patterns
            (if meltano_file_path s' \<in> set include_paths'
             then remove1 (meltano_file_path s') include_paths' else include_paths')
            patterns s')"
| "resolve_patterns include_paths (_ # patterns) s = (Inl TypeError, s)"

definition resolve_include_paths :: "val list \<Rightarrow> (path list) action" where
  "resolve_include_paths include_path_patterns s =
     (case resolve_patterns [] include_path_patterns s of
        (Inl e, s') \<Rightarrow> (Inl e, s')
      | (Inr include_paths, s') \<Rightarrow> (Inr (fromkeys include_paths), s'))"

text \<open>The property \<open>include_paths\<close>.\<close>

definition include_paths :: "(path list) action" where
  "include_paths =
     bind_action meltano (\<lambda>m s.
       case bind_err (py_get m ''include_paths'' (Seq [])) py_iter of
         Inl e \<Rightarrow> (Inl e, s)
       | Inr include_path_patterns \<Rightarrow> resolve_include_paths include_path_patterns s)"

section \<open>The origin index and \<open>load\<close>\<close>

text \<open>\<open>sep.join(key)\<close> on a tuple: every component has to be a string.\<close>

fun str_join :: "string \<Rightarrow> scalar list \<Rightarrow> error + string" where
  "str_join sep [] = Inr []"
| "str_join sep [SStr x] = Inr x"
| "str_join sep (SStr x # y # ys) =
     (case str_join sep (y # ys) of Inl e \<Rightarrow> Inl e | Inr r \<Rightarrow> Inr (x @ sep @ r))"
| "str_join sep (_ # ys) = Inl TypeError"

definition already_added_message :: "string \<Rightarrow> path \<Rightarrow> string" where
  "already_added_message key_path_string existing_key_file_path =
     ''Plugin with path '' @ [CHR 0x22] @ key_path_string @ [CHR 0x22] @
     '' already added in file '' @ existing_key_file_path @ ''.''"

definition add_to_index :: "key \<Rightarrow> path \<Rightarrow> unit action" where
  "add_to_index k include_path s =
     (case plugin_file_map s k of
        Some existing_key_file_path \<Rightarrow>
          (case str_join '':'' k of
             Inl e \<Rightarrow> (Inl e, s)
           | Inr key_path_string \<Rightarrow>
               (Inl (Exception ''Duplicate plugin name found.''),
                s\<lparr>critical_log := critical_log s @
                    [already_added_message key_path_string existing_key_file_path]\<rparr>))
      | None \<Rightarrow> (Inr (), s\<lparr>plugin_file_map := (plugin_file_map s)(k \<mapsto> include_path)\<rparr>))"

text \<open>The tuple key \<open>prefix + (entity["name"],)\<close>; building it raises nothing beyond the
  subscription, and its first use as a dict key hashes the name.\<close>

definition entity_key :: "scalar list \<Rightarrow> val \<Rightarrow> error + key" where
  "entity_key prefix entity =
     bind_err (py_getitem entity ''name'') (\<lambda>name.
     bind_err (py_hash name) (\<lambda>h. Inr (prefix @ [h])))"

text \<open>One loop \<open>for entity in entities: ... self._add_to_index(key, include_file_path)\<close>
  of \<open>_index_file\<close>; \<open>prefix\<close> is \<open>("plugins", plugin_type)\<close>, \<open>("schedules",)\<close> or
  \<open>("environments",)\<close>.\<close>

fun index_entities :: "scalar list \<Rightarrow> path \<Rightarrow> val list \<Rightarrow> unit action" where
  "index_entities prefix include_file_path [] s = (Inr (), s)"
| "index_entities prefix include_file_path (entity # entities) s =
     (case entity_key prefix entity of
        Inl e \<Rightarrow> (Inl e, s)
      | Inr k \<Rightarrow>
          (case add_to_index k include_file_path s of
             (Inl e, s') \<Rightarrow> (Inl e, s')
           | (Inr _, s') \<Rightarrow> index_entities prefix include_file_path entities s'))"

text \<open>The loop \<open>for plugin_type, plugins in all_plugins.items()\<close>.\<close>

fun index_plugins :: "path \<Rightarrow> dict \<Rightarrow> unit action" where
  "index_plugins include_file_path [] s = (Inr (), s)"
| "index_plugins include_file_path ((plugin_type, plugins) # rest) s =
     (case py_iter plugins of
        Inl e \<Rightarrow> (Inl e, s)
      | Inr ps \<Rightarrow>
          (case index_entities [SStr ''plugins'', SStr plugin_type] include_file_path ps s of
             (Inl e, s') \<Rightarrow> (Inl e, s')
           | (Inr _, s') \<Rightarrow> index_plugins include_file_path rest s'))"

text \<open>The schedules and the environments of \<open>_index_file\<close> are indexed by the same
  statements, up to the name of the collection.\<close>

definition index_collection :: "string \<Rightarrow> path \<Rightarrow> val \<Rightarrow> unit action" where
  "index_collection coll include_file_path include_file_contents s =
     (case bind_err (py_get include_file_contents coll (Seq [])) py_iter of
        Inl e \<Rightarrow> (Inl e, s)
      | Inr entities \<Rightarrow> index_entities [SStr coll] include_file_path entities s)"

definition index_file :: "path \<Rightarrow> val \<Rightarrow> unit action" where
  "index_file include_file_path include_file_contents =
     bind_action (\<lambda>s.
       case bind_err (py_get include_file_contents ''plugins'' (Map [])) py_items of
         Inl e \<Rightarrow> (Inl e, s)
       | Inr all_plugins \<Rightarrow> index_plugins include_file_path all_plugins s) (\<lambda>_.
     bind_action (index_collection ''schedules'' include_file_path include_file_contents) (\<lambda>_.
     index_collection ''environments'' include_file_path include_file_contents))"

definition parse_error_message :: "path \<Rightarrow> string \<Rightarrow> string" where
  "parse_error_message p exc =
     ''Error while parsing YAML file: '' @ p @ '' '' @ [CHR 0x0A] @ '' '' @ exc"

text \<open>\<open>with path.open() as file: contents = self._yaml.load(file)\<close>, with the handler
  of \<open>YAMLError\<close> around it.\<close>

definition read_included :: "path \<Rightarrow> val action" where
  "read_included p s =
     (case fs s p of
        Some (Yaml v) \<Rightarrow> (Inr v, s)
      | Some (Malformed d) \<Rightarrow>
          (Inl (YAMLError d), s\<lparr>critical_log := critical_log s @ [parse_error_message p d]\<rparr>)
      | _ \<Rightarrow> (Inl OSError, s))"

text \<open>The loop \<open>for path in self.include_paths\<close> of \<open>_load_included_files\<close>.\<close>

fun load_paths :: "val list \<Rightarrow> path list \<Rightarrow> (val list) action" where
  "load_paths included_file_contents [] s = (Inr included_file_contents, s)"
| "load_paths included_file_contents (p # ps) s =
     (case read_included p s of
        (Inl e, s') \<Rightarrow> (Inl e, s')
      | (Inr contents, s') \<Rightarrow>
          (case index_file p contents s' of
             (Inl e, s'') \<Rightarrow> (Inl e, s'')
           | (Inr _, s'') \<Rightarrow> load_paths (included_file_contents @ [contents]) ps s''))"

definition load_included_files :: "(val list) action" where
  "load_included_files s =
     bind_action include_paths (load_paths []) (s\<lparr>plugin_file_map := Map.empty\<rparr>)"

definition load :: "val action" where
  "load =
     bind_action reset_cache (\<lambda>_.
     bind_action load_included_files (\<lambda>included_file_contents.
     bind_action meltano (\<lambda>m s. (deep_merge m included_file_contents, s))))"

section \<open>Splitting a configuration by file, and \<open>update\<close>\<close>

text \<open>\<open>file_dicts\<close> maps a file path to the partial document for that file, in the
  order in which the files were first met.\<close>

type_synonym file_dicts = "(path \<times> dict) list"

text \<open>The set comprehension \<open>{x["name"] for x in entities}\<close>.\<close>

fun names_of :: "val list \<Rightarrow> error + scalar list" where
  "names_of [] = Inr []"
| "names_of (x # xs) =
     bind_err (py_getitem x ''name'') (\<lambda>name.
     bind_err (py_hash name) (\<lambda>h.
     bind_err (names_of xs) (\<lambda>hs. Inr (h # hs))))"

text \<open>The last two statements that \<open>_add_plugin\<close>, \<open>_add_schedule\<close> and
  \<open>_add_environment\<close> share: \<open>if entity["name"] not in {...}: entities.append(entity)\<close>.
  The result is the list afterwards.\<close>

definition append_unless_named :: "val \<Rightarrow> val \<Rightarrow> error + val" where
  "append_unless_named entities entity =
     bind_err (py_getitem entity ''name'') (\<lambda>name.
     bind_err (bind_err (py_iter entities) names_of) (\<lambda>names.
     bind_err (py_hash name) (\<lambda>h.
       if h \<notin> set names
       then (case entities of Seq es \<Rightarrow> Inr (Seq (es @ [entity])) | _ \<Rightarrow> Inl AttributeError)
       else Inr entities)))"

definition add_plugin :: "file_dicts \<Rightarrow> path \<Rightarrow> string \<Rightarrow> val \<Rightarrow> error + file_dicts" where
  "add_plugin fds file plugin_type plugin =
     (let (file_dict, fds1) = setdefault fds file [];
          (plugins_dict, file_dict1) = setdefault file_dict ''plugins'' (Map [])
      in case plugins_dict of
           Map pd \<Rightarrow>
             (let (plugins, pd1) = setdefault pd plugin_type (Seq [])
              in bind_err (append_unless_named plugins plugin) (\<lambda>plugins'.
                   Inr (AList.update file
                          (AList.update ''plugins''
                             (Map (AList.update plugin_type plugins' pd1)) file_dict1) fds1)))
         | _ \<Rightarrow> Inl AttributeError)"

text \<open>\<open>_add_schedule\<close> and \<open>_add_environment\<close>, up to the name of the collection.\<close>

definition add_named :: "string \<Rightarrow> file_dicts \<Rightarrow> path \<Rightarrow> val \<Rightarrow> error + file_dicts" where
  "add_named coll fds file entity =
     (let (file_dict, fds1) = setdefault fds file [];
          (entities, file_dict1) = setdefault file_dict coll (Seq [])
      in bind_err (append_unless_named entities entity) (\<lambda>entities'.
           Inr (AList.update file (AList.update coll entities' file_dict1) fds1)))"

text \<open>\<open>self._plugin_file_map.get(key, str(self._meltano_file_path))\<close>.\<close>

definition file_of :: "project_files \<Rightarrow> key \<Rightarrow> path" where
  "file_of s k = (case plugin_file_map s k of Some f \<Rightarrow> f | None \<Rightarrow> meltano_file_path s)"

text \<open>The inner loop \<open>for plugin in plugins\<close> of \<open>_add_plugins\<close>; the key is made with
  \<open>plugin.get("name")\<close>.\<close>

fun add_plugins_of_type ::
  "project_files \<Rightarrow> file_dicts \<Rightarrow> string \<Rightarrow> val list \<Rightarrow> error + file_dicts" where
  "add_plugins_of_type s fds plugin_type [] = Inr fds"
| "add_plugins_of_type s fds plugin_type (plugin # plugins) =
     bind_err (py_get plugin ''name'' (Scalar SNone)) (\<lambda>name.
     bind_err (py_hash name) (\<lambda>h.
     bind_err (add_plugin fds (file_of s [SStr ''plugins'', SStr plugin_type, h])
                 plugin_type plugin) (\<lambda>fds'.
     add_plugins_of_type s fds' plugin_type plugins)))"

fun add_plugins :: "project_files \<Rightarrow> file_dicts \<Rightarrow> dict \<Rightarrow> error + file_dicts" where
  "add_plugins s fds [] = Inr fds"
| "add_plugins s fds ((plugin_type, plugins) # rest) =
     bind_err (py_iter plugins) (\<lambda>ps.
     bind_err (add_plugins_of_type s fds plugin_type ps) (\<lambda>fds'.
     add_plugins s fds' rest))"

text \<open>\<open>_add_schedules\<close> and \<open>_add_environments\<close>, on the items of the collection.\<close>

fun add_entities ::
  "string \<Rightarrow> project_files \<Rightarrow> file_dicts \<Rightarrow> val list \<Rightarrow> error + file_dicts" where
  "add_entities coll s fds [] = Inr fds"
| "add_entities coll s fds (entity # entities) =
     bind_err (entity_key [SStr coll] entity) (\<lambda>k.
     bind_err (add_named coll fds (file_of s k) entity) (\<lambda>fds'.
     add_entities coll s fds' entities))"

text \<open>The loop \<open>for key, value in config.items()\<close> of \<open>_split_config_dict\<close>.\<close>

fun split_items :: "project_files \<Rightarrow> file_dicts \<Rightarrow> dict \<Rightarrow> error + file_dicts" where
  "split_items s fds [] = Inr fds"
| "split_items s fds ((k, v) # rest) =
     bind_err
       (if k = ''plugins'' then bind_err (py_items v) (add_plugins s fds)
        else if k = ''schedules'' then bind_err (py_iter v) (add_entities ''schedules'' s fds)
        else if k = ''environments'' then
          bind_err (py_iter v) (add_entities ''environments'' s fds)
        else
          (let (file_dict, fds1) = setdefault fds (meltano_file_path s) []
           in Inr (AList.update (meltano_file_path s) (AList.update k v file_dict) fds1)))
       (\<lambda>fds'. split_items s fds' rest)"

text \<open>After the loop, \<open>config.copy_attributes(file_dicts[str(self._meltano_file_path)])\<close>
  subscripts \<open>file_dicts\<close>; what it copies is formatting metadata.\<close>

definition split_config_dict :: "project_files \<Rightarrow> val \<Rightarrow> error + file_dicts" where
  "split_config_dict s config =
     bind_err (py_items config) (\<lambda>items.
     bind_err (split_items s [] items) (\<lambda>fds.
       case map_of fds (meltano_file_path s) of
         None \<Rightarrow> Inl (KeyError (meltano_file_path s))
       | Some _ \<Rightarrow> Inr fds))"

text \<open>\<open>atomic_write(file_path, overwrite=True)\<close> replaces a file or creates it; it cannot
  replace a directory.\<close>

definition write_file :: "path \<Rightarrow> val \<Rightarrow> unit action" where
  "write_file file_path contents s =
     (if fs s file_path = Some Directory then (Inl OSError, s)
      else (Inr (), s\<lparr>fs := (fs s)(file_path \<mapsto> Yaml contents)\<rparr>))"

fun write_files :: "(path \<times> val) list \<Rightarrow> unit action" where
  "write_files [] s = (Inr (), s)"
| "write_files ((file_path, contents) # rest) s =
     (case write_file file_path contents s of
        (Inl e, s') \<Rightarrow> (Inl e, s')
      | (Inr _, s') \<Rightarrow> write_files rest s')"

definition update :: "val \<Rightarrow> val action" where
  "update meltano_config s =
     (case split_config_dict s meltano_config of
        Inl e \<Rightarrow> (Inl e, s)
      | Inr fds \<Rightarrow>
          bind_action (write_files (map (\<lambda>(file_path, contents). (file_path, Map contents)) fds))
            (\<lambda>_.
          bind_action include_paths (\<lambda>paths.
          bind_action
            (write_files
               (map (\<lambda>unused_file_path. (unused_file_path, BLANK_SUBFILE))
                  (filter (\<lambda>fl. map_of fds fl = None) paths))) (\<lambda>_.
          bind_action reset_cache (\<lambda>_ s'. (Inr meltano_config, s'))))) s)"

section \<open>Vocabulary of the properties\<close>

subsection \<open>Reading a document\<close>

text \<open>The items of the sequence under a key, and the items of the mapping under a key;
  both are empty when the key is absent (or holds another kind of value).\<close>

definition seq_at :: "dict \<Rightarrow> string \<Rightarrow> val list" where
  "seq_at d k = (case map_of d k of Some (Seq xs) \<Rightarrow> xs | _ \<Rightarrow> [])"

definition map_at :: "dict \<Rightarrow> string \<Rightarrow> dict" where
  "map_at d k = (case map_of d k of Some (Map m) \<Rightarrow> m | _ \<Rightarrow> [])"

definition seq_or_absent :: "dict \<Rightarrow> string \<Rightarrow> bool" where
  "seq_or_absent d k = (case map_of d k of None \<Rightarrow> True | Some (Seq _) \<Rightarrow> True | _ \<Rightarrow> False)"

definition map_or_absent :: "dict \<Rightarrow> string \<Rightarrow> bool" where
  "map_or_absent d k = (case map_of d k of None \<Rightarrow> True | Some (Map _) \<Rightarrow> True | _ \<Rightarrow> False)"

text \<open>What merging one child does to one key: \<open>old\<close> is the value in the base before,
  \<open>new\<close> the child's value, \<open>res\<close> the value in the base afterwards.\<close>

definition step_ok :: "val option \<Rightarrow> val option \<Rightarrow> val option \<Rightarrow> bool" where
  "step_ok old new res =
     (case new of
        None \<Rightarrow> res = old
      | Some (Scalar s) \<Rightarrow> res = Some (Scalar s)
      | Some (Seq ys) \<Rightarrow>
          (\<exists>xs. (old = None \<and> xs = [] \<or> old = Some (Seq xs)) \<and> res = Some (Seq (xs @ ys)))
      | Some (Map m) \<Rightarrow>
          (\<exists>r. deep_merge (case old of None \<Rightarrow> Map [] | Some n \<Rightarrow> n) [Map m] = Inr r
               \<and> res = Some r))"

subsection \<open>Include resolution\<close>

text \<open>Every match of the patterns against the file system of \<open>s\<close>, pattern by pattern
  and, for one pattern, in the order of the expansion.\<close>

definition all_matches :: "project_files \<Rightarrow> string list \<Rightarrow> path list" where
  "all_matches s patterns = concat (map (glob s (fs s)) patterns)"

text \<open>A list without its repetitions: each item stays at the place of its first
  occurrence, that is, the item at index \<open>i\<close> is kept when it does not occur before
  \<open>i\<close>.\<close>

definition first_occurrences :: "'a list \<Rightarrow> 'a list" where
  "first_occurrences xs =
     map (\<lambda>i. xs ! i) (filter (\<lambda>i. xs ! i \<notin> set (take i xs)) [0..<length xs])"

text \<open>The accumulated list of \<open>_resolve_include_paths\<close> after the matches \<open>gs\<close> of
  some patterns: the matches of a pattern are appended, then one occurrence of the root
  file is removed.\<close>

fun collect :: "path \<Rightarrow> path list \<Rightarrow> path list list \<Rightarrow> path list" where
  "collect root acc [] = acc"
| "collect root acc (g # gs) =
     collect root (if root \<in> set (acc @ g) then remove1 root (acc @ g) else acc @ g) gs"

subsection \<open>Example projects\<close>

text \<open>A host expansion for patterns without wildcards: such a pattern matches the path
  of that name when it exists.\<close>

definition exact_glob :: "(path \<rightharpoonup> entry) \<Rightarrow> string \<Rightarrow> path list" where
  "exact_glob f pattern = (if f pattern = None then [] else [pattern])"

definition named :: "string \<Rightarrow> string \<Rightarrow> val" where
  "named name note = Map [(''name'', Scalar (SStr name)), (''note'', Scalar (SStr note))]"

text \<open>A project whose root file includes \<open>a.yml\<close> and \<open>b.yml\<close>; \<open>logs\<close> is a
  directory.\<close>

definition demo_fs :: "path \<rightharpoonup> entry" where
  "demo_fs =
     [''meltano.yml'' \<mapsto> Yaml (Map
        [(''version'', Scalar (SInt 1)),
         (''include_paths'', Seq [Scalar (SStr ''a.yml''), Scalar (SStr ''b.yml'')]),
         (''schedules'', Seq [named ''hourly'' ''root''])]),
      ''a.yml'' \<mapsto> Yaml (Map
        [(''plugins'', Map [(''extractors'', Seq [named ''tap-csv'' ''a''])]),
         (''schedules'', Seq [named ''daily'' ''a''])]),
      ''b.yml'' \<mapsto> Yaml (Map [(''schedules'', Seq [named ''weekly'' ''b''])]),
      ''logs'' \<mapsto> Directory]"

definition demo :: project_files where
  "demo = \<lparr>glob = exact_glob, meltano_file_path = ''meltano.yml'',
            meltano_cache = Scalar SNone, plugin_file_map = Map.empty,
            fs = demo_fs, critical_log = []\<rparr>"

subsection \<open>Well-formed project documents and the keys they declare\<close>

text \<open>An entity record is a mapping whose \<open>name\<close> is a scalar; for the duplicate
  message to be built, the name has to be a string.\<close>

definition named_entity :: "val \<Rightarrow> bool" where
  "named_entity v =
     (case v of
        Map d \<Rightarrow> (case map_of d ''name'' of Some (Scalar _) \<Rightarrow> True | _ \<Rightarrow> False)
      | _ \<Rightarrow> False)"

definition name_of :: "val \<Rightarrow> scalar" where
  "name_of v =
     (case v of
        Map d \<Rightarrow> (case map_of d ''name'' of Some (Scalar n) \<Rightarrow> n | _ \<Rightarrow> SNone)
      | _ \<Rightarrow> SNone)"

definition str_named :: "val \<Rightarrow> bool" where
  "str_named v = (case name_of v of SStr _ \<Rightarrow> True | _ \<Rightarrow> False)"

definition items_of :: "val \<Rightarrow> val list" where
  "items_of v = (case v of Seq xs \<Rightarrow> xs | _ \<Rightarrow> [])"

definition is_seq :: "val \<Rightarrow> bool" where
  "is_seq v = (case v of Seq _ \<Rightarrow> True | _ \<Rightarrow> False)"

text \<open>The entities of a document, collection by collection: the plugins of every type
  (in the order of the types), the schedules, the environments.\<close>

definition wf_doc :: "dict \<Rightarrow> bool" where
  "wf_doc d =
     (map_or_absent d ''plugins''
      \<and> list_all (\<lambda>tv. is_seq (snd tv) \<and> list_all named_entity (items_of (snd tv)))
           (map_at d ''plugins'')
      \<and> seq_or_absent d ''schedules'' \<and> list_all named_entity (seq_at d ''schedules'')
      \<and> seq_or_absent d ''environments'' \<and> list_all named_entity (seq_at d ''environments''))"

definition plugin_keys :: "dict \<Rightarrow> key list" where
  "plugin_keys plugins =
     concat (map (\<lambda>tv. map (\<lambda>e. [SStr ''plugins'', SStr (fst tv), name_of e])
                         (items_of (snd tv))) plugins)"

definition declared_keys :: "dict \<Rightarrow> key list" where
  "declared_keys d =
     plugin_keys (map_at d ''plugins'')
     @ map (\<lambda>e. [SStr ''schedules'', name_of e]) (seq_at d ''schedules'')
     @ map (\<lambda>e. [SStr ''environments'', name_of e]) (seq_at d ''environments'')"

definition is_str :: "scalar \<Rightarrow> bool" where
  "is_str x = (case x of SStr _ \<Rightarrow> True | _ \<Rightarrow> False)"

text \<open>The colon-separated rendering of a key made of strings.\<close>

fun key_path_string :: "key \<Rightarrow> string" where
  "key_path_string [] = []"
| "key_path_string [SStr x] = x"
| "key_path_string (SStr x # y # ys) = x @ '':'' @ key_path_string (y # ys)"
| "key_path_string (_ # ys) = []"

text \<open>The document in a file, and whether the file holds a mapping at all.\<close>

definition doc_at :: "(path \<rightharpoonup> entry) \<Rightarrow> path \<Rightarrow> dict" where
  "doc_at f p = (case f p of Some (Yaml (Map d)) \<Rightarrow> d | _ \<Rightarrow> [])"

definition is_doc :: "(path \<rightharpoonup> entry) \<Rightarrow> path \<Rightarrow> bool" where
  "is_doc f p = (case f p of Some (Yaml (Map d)) \<Rightarrow> True | _ \<Rightarrow> False)"

text \<open>The index entries that the files \<open>ps\<close> ask for, in the order in which
  \<open>_load_included_files\<close> adds them; \<open>add_all\<close> adds entries one by one.\<close>

definition index_entries :: "(path \<rightharpoonup> entry) \<Rightarrow> path list \<Rightarrow> (key \<times> path) list" where
  "index_entries f ps = concat (map (\<lambda>p. map (\<lambda>k. (k, p)) (declared_keys (doc_at f p))) ps)"

fun add_all :: "(key \<times> path) list \<Rightarrow> unit action" where
  "add_all [] s = (Inr (), s)"
| "add_all ((k, p) # rest) s =
     (case add_to_index k p s of
        (Inl e, s') \<Rightarrow> (Inl e, s')
      | (Inr _, s') \<Rightarrow> add_all rest s')"

text \<open>The patterns of a root document, and the include list they resolve to when all
  matches are files.\<close>

definition patterns_of :: "dict \<Rightarrow> string list \<Rightarrow> bool" where
  "patterns_of r patterns =
     (case map_of r ''include_paths'' of
        None \<Rightarrow> patterns = []
      | Some v \<Rightarrow> v = Seq (map (\<lambda>p. Scalar (SStr p)) patterns))"

definition resolved :: "project_files \<Rightarrow> string list \<Rightarrow> path list" where
  "resolved s patterns =
     fromkeys (collect (meltano_file_path s) [] (map (glob s (fs s)) patterns))"


text \<open>A root file that declares the schedule \<open>daily\<close> twice, and an include file that
  declares it once more.\<close>

definition root_dup :: project_files where
  "root_dup =
     \<lparr>glob = exact_glob, meltano_file_path = ''meltano.yml'',
      meltano_cache = Scalar SNone, plugin_file_map = Map.empty,
      fs = [''meltano.yml'' \<mapsto> Yaml (Map
              [(''include_paths'', Seq [Scalar (SStr ''a.yml'')]),
               (''schedules'', Seq [named ''daily'' ''root'', named ''daily'' ''root again''])]),
            ''a.yml'' \<mapsto> Yaml (Map [(''schedules'', Seq [named ''daily'' ''a''])])],
      critical_log = []\<rparr>"

subsection \<open>What the split does, without the error paths\<close>

text \<open>The partial document of a file in \<open>file_dicts\<close>, empty when the file has none.\<close>

definition grp :: "file_dicts \<Rightarrow> path \<Rightarrow> dict" where
  "grp fds f = (case map_of fds f of Some d \<Rightarrow> d | None \<Rightarrow> [])"

text \<open>Appending an entity to a list unless the list has an entity of that name.\<close>

definition snoc_unless_named :: "val list \<Rightarrow> val \<Rightarrow> val list" where
  "snoc_unless_named es e = (if name_of e \<in> name_of ` set es then es else es @ [e])"

text \<open>Placing one schedule or environment, and one plugin of a type, into the partial
  document of the file that the origin index gives for its key (the root file when the
  index has no entry).\<close>

definition put_entity :: "string \<Rightarrow> project_files \<Rightarrow> file_dicts \<Rightarrow> val \<Rightarrow> file_dicts" where
  "put_entity coll s fds e =
     (let f = file_of s [SStr coll, name_of e]
      in AList.update f
           (AList.update coll (Seq (snoc_unless_named (seq_at (grp fds f) coll) e)) (grp fds f))
           fds)"

definition put_plugin :: "string \<Rightarrow> project_files \<Rightarrow> file_dicts \<Rightarrow> val \<Rightarrow> file_dicts" where
  "put_plugin t s fds e =
     (let f = file_of s [SStr ''plugins'', SStr t, name_of e];
          pd = map_at (grp fds f) ''plugins''
      in AList.update f
           (AList.update ''plugins''
              (Map (AList.update t (Seq (snoc_unless_named (seq_at pd t) e)) pd)) (grp fds f))
           fds)"

definition put_plugins :: "project_files \<Rightarrow> file_dicts \<Rightarrow> dict \<Rightarrow> file_dicts" where
  "put_plugins s fds plugins =
     foldl (\<lambda>fds tv. foldl (put_plugin (fst tv) s) fds (items_of (snd tv))) fds plugins"

text \<open>Placing one top-level item of the configuration.\<close>

definition put_item :: "project_files \<Rightarrow> file_dicts \<Rightarrow> string \<times> val \<Rightarrow> file_dicts" where
  "put_item s fds kv =
     (if fst kv = ''plugins'' then put_plugins s fds (map_at [kv] ''plugins'')
      else if fst kv = ''schedules'' then foldl (put_entity ''schedules'' s) fds (items_of (snd kv))
      else if fst kv = ''environments'' then
        foldl (put_entity ''environments'' s) fds (items_of (snd kv))
      else AList.update (meltano_file_path s)
             (AList.update (fst kv) (snd kv) (grp fds (meltano_file_path s))) fds)"

text \<open>Every partial document is well-formed.\<close>

definition wf_groups :: "file_dicts \<Rightarrow> bool" where
  "wf_groups fds = list_all (\<lambda>fd. wf_doc (snd fd)) fds"

text \<open>The files to which the split assigns something of one top-level item, and of a
  whole configuration: the root file for a key other than the three collections, and the
  file of its key for every entity.\<close>

definition item_files :: "project_files \<Rightarrow> string \<times> val \<Rightarrow> path list" where
  "item_files s kv =
     (if fst kv = ''plugins'' then
        concat (map (\<lambda>tv. map (\<lambda>e. file_of s [SStr ''plugins'', SStr (fst tv), name_of e])
                             (items_of (snd tv)))
                  (map_at [kv] ''plugins''))
      else if fst kv = ''schedules'' \<or> fst kv = ''environments'' then
        map (\<lambda>e. file_of s [SStr (fst kv), name_of e]) (items_of (snd kv))
      else [meltano_file_path s])"

definition assigned_files :: "project_files \<Rightarrow> dict \<Rightarrow> path list" where
  "assigned_files s items = concat (map (item_files s) items)"

text \<open>The file system after the writes \<open>ws\<close>, each of a document to a path.\<close>

definition overwrite :: "(path \<times> val) list \<Rightarrow> (path \<rightharpoonup> entry) \<Rightarrow> (path \<rightharpoonup> entry)" where
  "overwrite ws f = (\<lambda>p. case map_of ws p of Some c \<Rightarrow> Some (Yaml c) | None \<Rightarrow> f p)"

text \<open>The writes of \<open>update\<close>: the partial documents, and the blank documents for the
  include paths \<open>ps\<close> that got none.\<close>

definition group_writes :: "file_dicts \<Rightarrow> (path \<times> val) list" where
  "group_writes fds = map (\<lambda>(file_path, contents). (file_path, Map contents)) fds"

definition blank_writes :: "file_dicts \<Rightarrow> path list \<Rightarrow> (path \<times> val) list" where
  "blank_writes fds ps =
     map (\<lambda>unused_file_path. (unused_file_path, BLANK_SUBFILE))
       (filter (\<lambda>fl. map_of fds fl = None) ps)"

text \<open>The project \<open>demo\<close> after \<open>load\<close>, and two configurations to write back: the
  loaded composite without the schedule of \<open>b.yml\<close> and with a new schedule, and a
  configuration made of that schedule of \<open>b.yml\<close> alone.\<close>

definition demo_loaded :: project_files where
  "demo_loaded = snd (load demo)"


definition weekly_only :: dict where
  "weekly_only = [(''schedules'', Seq [named ''weekly'' ''b''])]"

subsection \<open>Project documents\<close>

text \<open>A well-formed table of plugins: every type holds a sequence of entity records.\<close>

definition wf_plugins :: "dict \<Rightarrow> bool" where
  "wf_plugins pd =
     list_all (\<lambda>tv. is_seq (snd tv) \<and> list_all named_entity (items_of (snd tv))) pd"

text \<open>A proper document has each key once, is well-formed, and has each plugin type
  once. A document has only collections when its keys are among \<open>plugins\<close>,
  \<open>schedules\<close> and \<open>environments\<close>.\<close>

definition proper :: "dict \<Rightarrow> bool" where
  "proper d =
     (distinct (map fst d) \<and> wf_doc d \<and> distinct (map fst (map_at d ''plugins'')))"

definition is_collection :: "string \<Rightarrow> bool" where
  "is_collection k = (k = ''plugins'' \<or> k = ''schedules'' \<or> k = ''environments'')"

definition collections_only :: "dict \<Rightarrow> bool" where
  "collections_only d = list_all (\<lambda>kv. is_collection (fst kv)) d"

text \<open>No collection that is present is empty: a key \<open>schedules\<close> or \<open>environments\<close>
  holds at least one entity, a key \<open>plugins\<close> at least one type, and every type at
  least one plugin.\<close>

definition no_empty_collection :: "dict \<Rightarrow> bool" where
  "no_empty_collection d =
     ((''schedules'' \<in> set (map fst d) \<longrightarrow> seq_at d ''schedules'' \<noteq> [])
      \<and> (''environments'' \<in> set (map fst d) \<longrightarrow> seq_at d ''environments'' \<noteq> [])
      \<and> (''plugins'' \<in> set (map fst d) \<longrightarrow> map_at d ''plugins'' \<noteq> [])
      \<and> list_all (\<lambda>tv. items_of (snd tv) \<noteq> []) (map_at d ''plugins''))"

section \<open>Facts about \<open>deep_merge\<close>\<close>

lemma bind_err_simps [simp]:
  "bind_err (Inl e) f = Inl e" "bind_err (Inr x) f = f x"
  by (simp_all add: bind_err_def)

lemma bind_err_Inr_iff: "bind_err m f = Inr y \<longleftrightarrow> (\<exists>x. m = Inr x \<and> f x = Inr y)"
  by (cases m) simp_all

lemma deep_merge_single: "deep_merge base [Map m] = merge_items base m"
  by (simp split: sum.splits)

lemma merge_items_Map:
  "merge_items (Map b) items = Inr r \<Longrightarrow> \<exists>b'. r = Map b'"
proof (induction items arbitrary: b)
  case Nil then show ?case by auto
next
  case (Cons kv items)
  obtain k v where kv: "kv = (k, v)" by (cases kv)
  show ?case using Cons.prems Cons.IH unfolding kv
    by (cases v) (auto split: sum.splits val.splits)
qed

lemma merge_items_non_Map:
  "merge_items base items = Inr r \<Longrightarrow> \<forall>b. base \<noteq> Map b \<Longrightarrow> items = [] \<and> r = base"
proof (cases items)
  case Nil then show "merge_items base items = Inr r \<Longrightarrow> ?thesis" by simp
next
  case (Cons kv rest)
  obtain k v where kv: "kv = (k, v)" by (cases kv)
  assume "merge_items base items = Inr r" "\<forall>b. base \<noteq> Map b"
  then show ?thesis unfolding Cons kv
    by (cases v; cases base) auto
qed

lemma deep_merge_append:
  "deep_merge base (xs @ ys) = bind_err (deep_merge base xs) (\<lambda>b. deep_merge b ys)"
proof (induction xs arbitrary: base)
  case Nil then show ?case by simp
next
  case (Cons x xs)
  then show ?case by (cases x) (auto split: sum.splits)
qed


lemma fst_setdefault: "fst (setdefault d k x) = (case map_of d k of None \<Rightarrow> x | Some v \<Rightarrow> v)"
  by (simp add: setdefault_def split: option.splits)

lemma map_of_update_setdefault:
  "map_of (AList.update k v (snd (setdefault d k x))) = (map_of d)(k \<mapsto> v)"
  by (rule ext) (auto simp: setdefault_def update_conv' map_add_def split: option.splits)

lemma merge_items_step:
  assumes "merge_items (Map b) ((k0, v0) # items) = Inr r"
  obtains b1 x where "merge_items (Map b1) items = Inr r"
    and "map_of b1 = (map_of b)(k0 \<mapsto> x)"
    and "step_ok (map_of b k0) (Some v0) (Some x)"
proof (cases v0)
  case (Scalar s)
  with assms have "merge_items (Map (AList.update k0 (Scalar s) b)) items = Inr r" by simp
  moreover have "map_of (AList.update k0 (Scalar s) b) = (map_of b)(k0 \<mapsto> Scalar s)"
    by (simp add: update_conv')
  moreover have "step_ok (map_of b k0) (Some v0) (Some (Scalar s))"
    by (simp add: step_ok_def Scalar)
  ultimately show ?thesis by (rule that)
next
  case (Seq ys)
  with assms obtain xs where xs: "fst (setdefault b k0 (Seq [])) = Seq xs"
    and m: "merge_items (Map (AList.update k0 (Seq (xs @ ys)) (snd (setdefault b k0 (Seq []))))) items = Inr r"
    by (auto split: val.splits)
  have "step_ok (map_of b k0) (Some v0) (Some (Seq (xs @ ys)))"
    using xs by (auto simp: step_ok_def Seq fst_setdefault split: option.splits)
  with m show ?thesis by (rule that[OF _ map_of_update_setdefault])
next
  case (Map m)
  with assms obtain x where x: "deep_merge (fst (setdefault b k0 (Map []))) [Map m] = Inr x"
    and m: "merge_items (Map (AList.update k0 x (snd (setdefault b k0 (Map []))))) items = Inr r"
    by (auto split: sum.splits)
  have "step_ok (map_of b k0) (Some v0) (Some x)"
    using x by (auto simp: step_ok_def Map fst_setdefault split: option.splits)
  with m show ?thesis by (rule that[OF _ map_of_update_setdefault])
qed

lemma merge_items_lookup:
  "distinct (map fst items) \<Longrightarrow> merge_items (Map b) items = Inr (Map b') \<Longrightarrow>
   step_ok (map_of b k) (map_of items k) (map_of b' k)"
proof (induction items arbitrary: b)
  case Nil then show ?case by (simp add: step_ok_def)
next
  case (Cons kv items)
  obtain k0 v0 where kv: "kv = (k0, v0)" by (cases kv)
  from Cons.prems(1) kv have d: "distinct (map fst items)" and k0: "map_of items k0 = None"
    by (auto simp: map_of_eq_None_iff)
  from Cons.prems(2) kv obtain b1 x where m: "merge_items (Map b1) items = Inr (Map b')"
    and b1: "map_of b1 = (map_of b)(k0 \<mapsto> x)"
    and sx: "step_ok (map_of b k0) (Some v0) (Some x)"
    by (auto elim: merge_items_step)
  from Cons.IH[OF d m] have ih: "step_ok (map_of b1 k) (map_of items k) (map_of b' k)" .
  show ?case
  proof (cases "k = k0")
    case True
    with ih k0 b1 have "map_of b' k = Some x" by (simp add: step_ok_def)
    with sx True show ?thesis by (simp add: kv)
  next
    case False
    with ih b1 show ?thesis by (simp add: kv)
  qed
qed

lemma deep_merge_Cons_Inr:
  assumes "deep_merge (Map root) (map Map (c # rest)) = Inr merged"
  obtains r1 where "merge_items (Map root) c = Inr (Map r1)"
    "deep_merge (Map r1) (map Map rest) = Inr merged"
proof -
  from assms obtain r where r: "merge_items (Map root) c = Inr r"
    and m: "deep_merge r (map Map rest) = Inr merged"
    by (auto split: sum.splits)
  from merge_items_Map[OF r] obtain r1 where "r = Map r1" by blast
  with r m show ?thesis by (auto intro: that)
qed

lemma deep_merge_Map:
  "deep_merge (Map root) (map Map children) = Inr merged \<Longrightarrow> \<exists>m. merged = Map m"
proof (induction children arbitrary: root)
  case Nil then show ?case by auto
next
  case (Cons c cs)
  from Cons.prems obtain r1 where "deep_merge (Map r1) (map Map cs) = Inr merged"
    by (rule deep_merge_Cons_Inr)
  then show ?case by (rule Cons.IH)
qed

lemma deep_merge_untouched:
  "deep_merge (Map root) (map Map children) = Inr (Map m) \<Longrightarrow>
   \<forall>c\<in>set children. distinct (map fst c) \<Longrightarrow>
   \<forall>c\<in>set children. map_of c k = None \<Longrightarrow> map_of m k = map_of root k"
proof (induction children arbitrary: root)
  case Nil then show ?case by simp
next
  case (Cons c cs)
  from Cons.prems(1) obtain r1 where r1: "merge_items (Map root) c = Inr (Map r1)"
    and rest: "deep_merge (Map r1) (map Map cs) = Inr (Map m)"
    by (rule deep_merge_Cons_Inr)
  from merge_items_lookup[OF _ r1, of k] Cons.prems(2,3)
  have "map_of r1 k = map_of root k" by (simp add: step_ok_def)
  with Cons.IH[OF rest] Cons.prems(2,3) show ?case by simp
qed

lemma deep_merge_scalar:
  "deep_merge (Map root) (map Map children) = Inr (Map m) \<Longrightarrow>
   \<forall>c\<in>set children. distinct (map fst c) \<Longrightarrow>
   filter (\<lambda>c. map_of c k \<noteq> None) children \<noteq> [] \<Longrightarrow>
   map_of (last (filter (\<lambda>c. map_of c k \<noteq> None) children)) k = Some (Scalar s) \<Longrightarrow>
   map_of m k = Some (Scalar s)"
proof (induction children arbitrary: root)
  case Nil then show ?case by simp
next
  case (Cons c cs)
  from Cons.prems(1) obtain r1 where r1: "merge_items (Map root) c = Inr (Map r1)"
    and rest: "deep_merge (Map r1) (map Map cs) = Inr (Map m)"
    by (rule deep_merge_Cons_Inr)
  from Cons.prems(2) have dc: "distinct (map fst c)" and dcs: "\<forall>c\<in>set cs. distinct (map fst c)"
    by simp_all
  show ?case
  proof (cases "filter (\<lambda>c. map_of c k \<noteq> None) cs = []")
    case True
    then have none: "\<forall>c\<in>set cs. map_of c k = None" by (auto simp: filter_empty_conv)
    from True Cons.prems(3,4) have "map_of c k = Some (Scalar s)" by (auto split: if_splits)
    with merge_items_lookup[OF dc r1, of k] have "map_of r1 k = Some (Scalar s)"
      by (simp add: step_ok_def)
    with deep_merge_untouched[OF rest dcs none] show ?thesis by simp
  next
    case False
    with Cons.prems(4)
    have "map_of (last (filter (\<lambda>c. map_of c k \<noteq> None) cs)) k = Some (Scalar s)"
      by (auto split: if_splits)
    from Cons.IH[OF rest dcs False this] show ?thesis .
  qed
qed

lemma deep_merge_seq_aux:
  "deep_merge (Map root) (map Map children) = Inr (Map m) \<Longrightarrow>
   \<forall>c\<in>set children. distinct (map fst c) \<Longrightarrow>
   \<forall>d\<in>set (root # children). seq_or_absent d k \<Longrightarrow>
   seq_or_absent m k \<and> seq_at m k = concat (map (\<lambda>d. seq_at d k) (root # children))
   \<and> (map_of m k = None \<longleftrightarrow> (\<forall>d\<in>set (root # children). map_of d k = None))"
proof (induction children arbitrary: root)
  case Nil then show ?case by simp
next
  case (Cons c cs)
  from Cons.prems(1) obtain r1 where r1: "merge_items (Map root) c = Inr (Map r1)"
    and rest: "deep_merge (Map r1) (map Map cs) = Inr (Map m)"
    by (rule deep_merge_Cons_Inr)
  from Cons.prems(2) have dc: "distinct (map fst c)" and dcs: "\<forall>c\<in>set cs. distinct (map fst c)"
    by simp_all
  from Cons.prems(3) have sr: "seq_or_absent root k" and sc: "seq_or_absent c k"
    and scs: "\<forall>d\<in>set cs. seq_or_absent d k" by simp_all
  from merge_items_lookup[OF dc r1, of k] sr sc
  have s1: "seq_or_absent r1 k" and a1: "seq_at r1 k = seq_at root k @ seq_at c k"
    and n1: "map_of r1 k = None \<longleftrightarrow> map_of root k = None \<and> map_of c k = None"
    by (auto simp: step_ok_def seq_or_absent_def seq_at_def split: option.splits val.splits)
  from s1 scs have "\<forall>d\<in>set (r1 # cs). seq_or_absent d k" by simp
  from Cons.IH[OF rest dcs this] a1 n1 show ?case by auto
qed

lemma deep_merge_seq:
  assumes "deep_merge (Map root) (map Map children) = Inr (Map m)"
    and "\<forall>c\<in>set children. distinct (map fst c)"
    and "\<forall>d\<in>set (root # children). seq_or_absent d k"
    and "\<exists>d\<in>set (root # children). map_of d k \<noteq> None"
  shows "map_of m k = Some (Seq (concat (map (\<lambda>d. seq_at d k) (root # children))))"
proof -
  note aux = deep_merge_seq_aux[OF assms(1-3)]
  from aux have a: "seq_or_absent m k" by (rule conjunct1)
  from aux have b: "seq_at m k = concat (map (\<lambda>d. seq_at d k) (root # children))"
    by (rule conjunct1[OF conjunct2])
  from aux have "(map_of m k = None) = (\<forall>d\<in>set (root # children). map_of d k = None)"
    by (rule conjunct2[OF conjunct2])
  with assms(4) obtain v where v: "map_of m k = Some v" by fastforce
  with a obtain xs where xs: "v = Seq xs"
    by (cases v) (simp_all add: seq_or_absent_def)
  with v have "seq_at m k = xs" by (simp add: seq_at_def)
  with b v xs show ?thesis by simp
qed

lemma deep_merge_map_aux:
  "deep_merge (Map root) (map Map children) = Inr (Map m) \<Longrightarrow>
   \<forall>c\<in>set children. distinct (map fst c) \<Longrightarrow>
   \<forall>d\<in>set (root # children). map_or_absent d k \<Longrightarrow>
   map_or_absent m k
   \<and> deep_merge (Map (map_at root k)) (map (\<lambda>c. Map (map_at c k)) children) = Inr (Map (map_at m k))
   \<and> (map_of m k = None \<longleftrightarrow> (\<forall>d\<in>set (root # children). map_of d k = None))"
proof (induction children arbitrary: root)
  case Nil then show ?case by simp
next
  case (Cons c cs)
  from Cons.prems(1) obtain r1 where r1: "merge_items (Map root) c = Inr (Map r1)"
    and rest: "deep_merge (Map r1) (map Map cs) = Inr (Map m)"
    by (rule deep_merge_Cons_Inr)
  from Cons.prems(2) have dc: "distinct (map fst c)" and dcs: "\<forall>c\<in>set cs. distinct (map fst c)"
    by simp_all
  from Cons.prems(3) have sr: "map_or_absent root k" and sc: "map_or_absent c k"
    and scs: "\<forall>d\<in>set cs. map_or_absent d k" by simp_all
  have step: "step_ok (map_of root k) (map_of c k) (map_of r1 k)"
    by (rule merge_items_lookup[OF dc r1])
  have s1: "map_or_absent r1 k \<and> merge_items (Map (map_at root k)) (map_at c k) = Inr (Map (map_at r1 k))
    \<and> (map_of r1 k = None \<longleftrightarrow> map_of root k = None \<and> map_of c k = None)"
  proof (cases "map_of c k")
    case None
    with step sr show ?thesis by (simp add: step_ok_def map_or_absent_def map_at_def)
  next
    case (Some v)
    with sc obtain mm where v: "v = Map mm" by (auto simp: map_or_absent_def split: val.splits)
    from sr have eq: "(case map_of root k of None \<Rightarrow> Map [] | Some n \<Rightarrow> n) = Map (map_at root k)"
      by (auto simp: map_or_absent_def map_at_def split: option.splits val.splits)
    from step Some v eq obtain r where r: "merge_items (Map (map_at root k)) mm = Inr r"
      and rk: "map_of r1 k = Some r" by (auto simp: step_ok_def split: sum.splits)
    from merge_items_Map[OF r] obtain rm where "r = Map rm" by blast
    with r rk Some v show ?thesis by (simp add: map_or_absent_def map_at_def)
  qed
  from s1 scs have "\<forall>d\<in>set (r1 # cs). map_or_absent d k" by simp
  note ih = Cons.IH[OF rest dcs this]
  from ih have g1: "map_or_absent m k" by (rule conjunct1)
  from ih have "deep_merge (Map (map_at r1 k)) (map (\<lambda>c. Map (map_at c k)) cs)
      = Inr (Map (map_at m k))" by (rule conjunct1[OF conjunct2])
  with s1 have g2: "deep_merge (Map (map_at root k)) (map (\<lambda>c. Map (map_at c k)) (c # cs))
      = Inr (Map (map_at m k))" by simp
  from ih have "(map_of m k = None) = (\<forall>d\<in>set (r1 # cs). map_of d k = None)"
    by (rule conjunct2[OF conjunct2])
  with s1 have g3: "(map_of m k = None) = (\<forall>d\<in>set (root # c # cs). map_of d k = None)"
    by simp
  from g1 g2 g3 show ?case by (intro conjI)
qed

section \<open>Facts about the include resolver\<close>

lemma check_paths_valid:
  "\<forall>p\<in>set ps. is_file (fs s) p \<Longrightarrow> check_paths acc ps s = (Inr (acc @ ps), s)"
  by (induction ps arbitrary: acc) (auto simp: is_valid_include_path_def is_file_def exists_def split: option.splits)

lemma check_paths_invalid:
  "\<exists>p\<in>set ps. \<not> is_file (fs s) p \<Longrightarrow>
   check_paths acc ps s =
     (Inl (InvalidIncludePath (not_found_message (hd (filter (\<lambda>p. \<not> is_file (fs s) p) ps)))),
      s\<lparr>critical_log := critical_log s @
         [invalid_message (hd (filter (\<lambda>p. \<not> is_file (fs s) p) ps))
            (not_found_message (hd (filter (\<lambda>p. \<not> is_file (fs s) p) ps)))]\<rparr>)"
proof (induction ps arbitrary: acc)
  case Nil then show ?case by simp
next
  case (Cons p ps)
  show ?case
  proof (cases "is_file (fs s) p")
    case True
    with Cons.prems have "\<exists>p\<in>set ps. \<not> is_file (fs s) p" by simp
    from Cons.IH[OF this] True show ?thesis
      by (simp add: is_valid_include_path_def is_file_def exists_def split: option.splits)
  next
    case False
    then show ?thesis by (simp add: is_valid_include_path_def)
  qed
qed

lemma resolve_patterns_valid:
  "\<forall>pattern\<in>set patterns. \<forall>p\<in>set (glob s (fs s) pattern). is_file (fs s) p \<Longrightarrow>
   resolve_patterns acc (map (\<lambda>p. Scalar (SStr p)) patterns) s =
     (Inr (collect (meltano_file_path s) acc (map (glob s (fs s)) patterns)), s)"
proof (induction patterns arbitrary: acc)
  case Nil then show ?case by simp
next
  case (Cons pattern patterns)
  from Cons.prems have v: "\<forall>p\<in>set (glob s (fs s) pattern). is_file (fs s) p" by simp
  from Cons.prems have r: "\<forall>pattern\<in>set patterns. \<forall>p\<in>set (glob s (fs s) pattern). is_file (fs s) p"
    by simp
  show ?case
    by (simp add: check_paths_valid[OF v] Cons.IH[OF r])
qed

lemma resolve_patterns_invalid:
  "\<exists>p\<in>set (all_matches s patterns). \<not> is_file (fs s) p \<Longrightarrow>
   resolve_patterns acc (map (\<lambda>p. Scalar (SStr p)) patterns) s =
     (Inl (InvalidIncludePath
        (not_found_message (hd (filter (\<lambda>p. \<not> is_file (fs s) p) (all_matches s patterns))))),
      s\<lparr>critical_log := critical_log s @
         [invalid_message (hd (filter (\<lambda>p. \<not> is_file (fs s) p) (all_matches s patterns)))
            (not_found_message
               (hd (filter (\<lambda>p. \<not> is_file (fs s) p) (all_matches s patterns))))]\<rparr>)"
proof (induction patterns arbitrary: acc)
  case Nil then show ?case by (simp add: all_matches_def)
next
  case (Cons pattern patterns)
  show ?case
  proof (cases "\<forall>p\<in>set (glob s (fs s) pattern). is_file (fs s) p")
    case True
    then have f: "filter (\<lambda>p. \<not> is_file (fs s) p) (glob s (fs s) pattern) = []"
      by (simp add: filter_empty_conv)
    from True Cons.prems have "\<exists>p\<in>set (all_matches s patterns). \<not> is_file (fs s) p"
      by (auto simp: all_matches_def)
    from Cons.IH[OF this] show ?thesis
      by (simp add: check_paths_valid[OF True] all_matches_def f)
  next
    case False
    then have e: "\<exists>p\<in>set (glob s (fs s) pattern). \<not> is_file (fs s) p" by simp
    then have "filter (\<lambda>p. \<not> is_file (fs s) p) (glob s (fs s) pattern) \<noteq> []"
      by (simp add: filter_empty_conv)
    then show ?thesis
      by (simp add: check_paths_invalid[OF e] all_matches_def hd_append)
  qed
qed


lemma filter_neq_id: "x \<notin> set g \<Longrightarrow> filter (\<lambda>p. p \<noteq> x) g = g"
  by (induction g) auto

lemma remove1_distinct_filter: "distinct g \<Longrightarrow> remove1 x g = filter (\<lambda>p. p \<noteq> x) g"
  by (induction g) (auto simp: filter_neq_id)

lemma collect_distinct:
  "root \<notin> set acc \<Longrightarrow> \<forall>g\<in>set gs. distinct g \<Longrightarrow>
   collect root acc gs = acc @ filter (\<lambda>p. p \<noteq> root) (concat gs)"
proof (induction gs arbitrary: acc)
  case Nil then show ?case by simp
next
  case (Cons g gs)
  let ?acc' = "if root \<in> set (acc @ g) then remove1 root (acc @ g) else acc @ g"
  from Cons.prems have dg: "distinct g" by simp
  have eq: "?acc' = acc @ filter (\<lambda>p. p \<noteq> root) g"
    using Cons.prems(1) by (auto simp: remove1_append remove1_distinct_filter[OF dg] filter_neq_id)
  then have "root \<notin> set ?acc'" using Cons.prems(1) by simp
  from Cons.IH[OF this] Cons.prems(2) have "collect root ?acc' gs = ?acc' @ filter (\<lambda>p. p \<noteq> root) (concat gs)"
    by simp
  with eq show ?case by simp
qed

lemma set_fromkeys_acc: "set (fromkeys_acc seen xs) = set seen \<union> set xs"
  by (induction xs arbitrary: seen) auto

lemma fromkeys_acc_snoc:
  "fromkeys_acc seen (xs @ [x]) =
     (if x \<in> set (fromkeys_acc seen xs) then fromkeys_acc seen xs else fromkeys_acc seen xs @ [x])"
  by (induction xs arbitrary: seen) auto

lemma fromkeys_snoc:
  "fromkeys (xs @ [x]) = (if x \<in> set xs then fromkeys xs else fromkeys xs @ [x])"
  by (simp add: fromkeys_def fromkeys_acc_snoc set_fromkeys_acc)

lemma first_occurrences_snoc:
  "first_occurrences (xs @ [x]) =
     (if x \<in> set xs then first_occurrences xs else first_occurrences xs @ [x])"
proof -
  have f: "filter (\<lambda>i. (xs @ [x]) ! i \<notin> set (take i (xs @ [x]))) [0..<length xs]
         = filter (\<lambda>i. xs ! i \<notin> set (take i xs)) [0..<length xs]"
    by (rule filter_cong) (auto simp: nth_append)
  have m: "map (\<lambda>i. (xs @ [x]) ! i) (filter (\<lambda>i. xs ! i \<notin> set (take i xs)) [0..<length xs])
         = map (\<lambda>i. xs ! i) (filter (\<lambda>i. xs ! i \<notin> set (take i xs)) [0..<length xs])"
    by (rule map_cong) (auto simp: nth_append)
  have "first_occurrences (xs @ [x])
      = map (\<lambda>i. (xs @ [x]) ! i)
          (filter (\<lambda>i. (xs @ [x]) ! i \<notin> set (take i (xs @ [x]))) [0..<length xs])
        @ map (\<lambda>i. (xs @ [x]) ! i)
            (filter (\<lambda>i. (xs @ [x]) ! i \<notin> set (take i (xs @ [x]))) [length xs])"
    unfolding first_occurrences_def
    by (simp only: length_append_singleton upt_Suc le0 if_True filter_append map_append)
  also have "\<dots> = first_occurrences xs
        @ map (\<lambda>i. (xs @ [x]) ! i)
            (filter (\<lambda>i. (xs @ [x]) ! i \<notin> set (take i (xs @ [x]))) [length xs])"
    by (simp only: f m first_occurrences_def)
  also have "\<dots> = (if x \<in> set xs then first_occurrences xs else first_occurrences xs @ [x])"
    by simp
  finally show ?thesis .
qed

lemma fromkeys_first_occurrences: "fromkeys xs = first_occurrences xs"
proof (induction xs rule: rev_induct)
  case Nil show ?case by (simp add: fromkeys_def first_occurrences_def)
next
  case (snoc x xs)
  then show ?case by (simp add: fromkeys_snoc first_occurrences_snoc)
qed

lemma set_fromkeys: "set (fromkeys xs) = set xs"
  by (simp add: fromkeys_def set_fromkeys_acc)

lemma distinct_fromkeys: "distinct (fromkeys xs)"
  by (induction xs rule: rev_induct) (simp_all add: fromkeys_def fromkeys_snoc[unfolded fromkeys_def] set_fromkeys_acc)

lemma not_found_message_inj: "not_found_message p = not_found_message q \<Longrightarrow> p = q"
  by (simp add: not_found_message_def)

section \<open>Facts about indexing and \<open>load\<close>\<close>

lemma bind_action_simps:
  "m s = (Inl e, s') \<Longrightarrow> bind_action m f s = (Inl e, s')"
  "m s = (Inr x, s') \<Longrightarrow> bind_action m f s = f x s'"
  by (simp_all add: bind_action_def)

lemma entity_key_named:
  "named_entity e \<Longrightarrow> entity_key prefix e = Inr (prefix @ [name_of e])"
  by (auto simp: named_entity_def entity_key_def name_of_def py_getitem_def py_hash_def
      split: val.splits option.splits)

lemma add_all_append:
  "add_all (xs @ ys) s =
     (case add_all xs s of (Inl e, s') \<Rightarrow> (Inl e, s') | (Inr _, s') \<Rightarrow> add_all ys s')"
proof (induction xs arbitrary: s)
  case Nil show ?case by simp
next
  case (Cons kp xs)
  obtain k p where kp: "kp = (k, p)" by (cases kp)
  show ?case unfolding kp using Cons.IH
    by (auto split: prod.splits sum.splits)
qed

lemma index_entities_add_all:
  "list_all named_entity es \<Longrightarrow>
   index_entities prefix p es s = add_all (map (\<lambda>e. (prefix @ [name_of e], p)) es) s"
  by (induction es arbitrary: s) (auto simp: entity_key_named split: prod.splits sum.splits)

lemma index_plugins_add_all:
  "list_all (\<lambda>tv. is_seq (snd tv) \<and> list_all named_entity (items_of (snd tv))) plugins \<Longrightarrow>
   index_plugins p plugins s = add_all (map (\<lambda>k. (k, p)) (plugin_keys plugins)) s"
proof (induction plugins arbitrary: s)
  case Nil show ?case by (simp add: plugin_keys_def)
next
  case (Cons tv plugins)
  obtain t v where tv: "tv = (t, v)" by (cases tv)
  from Cons.prems tv obtain ps where v: "v = Seq ps" and n: "list_all named_entity ps"
    by (cases v) (auto simp: is_seq_def items_of_def)
  from Cons.prems have r: "list_all (\<lambda>tv. is_seq (snd tv) \<and> list_all named_entity (items_of (snd tv))) plugins"
    by simp
  have pk: "plugin_keys ((t, Seq ps) # plugins)
    = map (\<lambda>e. [SStr ''plugins'', SStr t, name_of e]) ps @ plugin_keys plugins"
    by (simp add: plugin_keys_def items_of_def)
  show ?case
    unfolding tv v
    by (simp add: pk py_iter_def index_entities_add_all[OF n] add_all_append Cons.IH[OF r] comp_def
        split: prod.splits sum.splits)
qed

lemma py_get_seq_iter:
  "seq_or_absent d c \<Longrightarrow> bind_err (py_get (Map d) c (Seq [])) py_iter = Inr (seq_at d c)"
  by (auto simp: seq_or_absent_def py_get_def py_iter_def seq_at_def bind_err_def
      split: option.splits val.splits)

lemma py_get_map_items:
  "map_or_absent d c \<Longrightarrow> bind_err (py_get (Map d) c (Map [])) py_items = Inr (map_at d c)"
  by (auto simp: map_or_absent_def py_get_def py_items_def map_at_def bind_err_def
      split: option.splits val.splits)

lemma index_collection_add_all:
  "seq_or_absent d c \<Longrightarrow> list_all named_entity (seq_at d c) \<Longrightarrow>
   index_collection c p (Map d) s = add_all (map (\<lambda>e. ([SStr c, name_of e], p)) (seq_at d c)) s"
  by (simp add: index_collection_def py_get_seq_iter index_entities_add_all)

lemma index_file_add_all:
  assumes "wf_doc d"
  shows "index_file p (Map d) s = add_all (map (\<lambda>k. (k, p)) (declared_keys d)) s"
proof -
  from assms have a: "map_or_absent d ''plugins''"
    and b: "list_all (\<lambda>tv. is_seq (snd tv) \<and> list_all named_entity (items_of (snd tv)))
           (map_at d ''plugins'')"
    and c: "seq_or_absent d ''schedules''" "list_all named_entity (seq_at d ''schedules'')"
    and e: "seq_or_absent d ''environments''" "list_all named_entity (seq_at d ''environments'')"
    by (simp_all add: wf_doc_def)
  show ?thesis
    by (simp add: index_file_def bind_action_def py_get_map_items[OF a]
        index_plugins_add_all[OF b] index_collection_add_all[OF c] index_collection_add_all[OF e]
        declared_keys_def add_all_append comp_def split: prod.splits sum.splits)
qed


lemma add_to_index_frame:
  "add_to_index k p s = (r, s') \<Longrightarrow>
   fs s' = fs s \<and> glob s' = glob s \<and> meltano_cache s' = meltano_cache s
   \<and> meltano_file_path s' = meltano_file_path s"
  by (auto simp: add_to_index_def split: option.splits sum.splits)

lemma add_all_frame:
  "add_all kps s = (r, s') \<Longrightarrow>
   fs s' = fs s \<and> glob s' = glob s \<and> meltano_cache s' = meltano_cache s
   \<and> meltano_file_path s' = meltano_file_path s"
proof (induction kps arbitrary: s)
  case Nil then show ?case by simp
next
  case (Cons kp kps)
  obtain k p where kp: "kp = (k, p)" by (cases kp)
  obtain r1 s1 where a: "add_to_index k p s = (r1, s1)" by (cases "add_to_index k p s")
  note f = add_to_index_frame[OF a]
  show ?case
  proof (cases r1)
    case (Inl e)
    with Cons.prems a kp f show ?thesis by auto
  next
    case (Inr u)
    with Cons.prems a kp have "add_all kps s1 = (r, s')" by simp
    from Cons.IH[OF this] f show ?thesis by simp
  qed
qed

lemma add_all_fresh:
  "distinct (map fst kps) \<Longrightarrow> \<forall>k\<in>set (map fst kps). plugin_file_map s k = None \<Longrightarrow>
   add_all kps s = (Inr (), s\<lparr>plugin_file_map := plugin_file_map s ++ map_of kps\<rparr>)"
proof (induction kps arbitrary: s)
  case Nil then show ?case by simp
next
  case (Cons kp kps)
  obtain k p where kp: "kp = (k, p)" by (cases kp)
  let ?s1 = "s\<lparr>plugin_file_map := (plugin_file_map s)(k \<mapsto> p)\<rparr>"
  from Cons.prems kp have a: "add_to_index k p s = (Inr (), ?s1)"
    by (simp add: add_to_index_def)
  from Cons.prems kp have d: "distinct (map fst kps)" and nk: "k \<notin> fst ` set kps" by auto
  from Cons.prems kp nk have "\<forall>k'\<in>set (map fst kps). plugin_file_map ?s1 k' = None" by auto
  from Cons.IH[OF d this] have ih: "add_all kps ?s1
     = (Inr (), ?s1\<lparr>plugin_file_map := plugin_file_map ?s1 ++ map_of kps\<rparr>)" .
  from nk have "map_of kps k = None" by (simp add: map_of_eq_None_iff)
  then have eq: "(plugin_file_map s)(k \<mapsto> p) ++ map_of kps
     = plugin_file_map s ++ map_of (kp # kps)"
    unfolding kp by (intro ext) (auto simp: map_add_def split: option.splits)
  have "?s1\<lparr>plugin_file_map := plugin_file_map ?s1 ++ map_of kps\<rparr>
     = s\<lparr>plugin_file_map := (plugin_file_map s)(k \<mapsto> p) ++ map_of kps\<rparr>" by simp
  also have "\<dots> = s\<lparr>plugin_file_map := plugin_file_map s ++ map_of (kp # kps)\<rparr>"
    by (simp only: eq)
  finally have st: "?s1\<lparr>plugin_file_map := plugin_file_map ?s1 ++ map_of kps\<rparr>
     = s\<lparr>plugin_file_map := plugin_file_map s ++ map_of (kp # kps)\<rparr>" .
  have "add_all (kp # kps) s = add_all kps ?s1" using a by (simp add: kp)
  with ih st show ?case by (simp only:)
qed



lemma read_included_doc:
  "is_doc (fs s) p \<Longrightarrow> read_included p s = (Inr (Map (doc_at (fs s) p)), s)"
  by (auto simp: is_doc_def read_included_def doc_at_def split: option.splits entry.splits val.splits)

lemma index_entries_Cons:
  "index_entries f (p # ps) = map (\<lambda>k. (k, p)) (declared_keys (doc_at f p)) @ index_entries f ps"
  by (simp add: index_entries_def)

lemma load_paths_add_all:
  "\<forall>p\<in>set ps. is_doc (fs s) p \<and> wf_doc (doc_at (fs s) p) \<Longrightarrow>
   load_paths acc ps s =
     (case add_all (index_entries (fs s) ps) s of
        (Inl e, s') \<Rightarrow> (Inl e, s')
      | (Inr _, s') \<Rightarrow> (Inr (acc @ map (\<lambda>p. Map (doc_at (fs s) p)) ps), s'))"
proof (induction ps arbitrary: acc s)
  case Nil then show ?case by (simp add: index_entries_def)
next
  case (Cons p ps)
  from Cons.prems have d: "is_doc (fs s) p" and w: "wf_doc (doc_at (fs s) p)" by simp_all
  let ?kps = "map (\<lambda>k. (k, p)) (declared_keys (doc_at (fs s) p))"
  obtain r1 s1 where a: "add_all ?kps s = (r1, s1)" by (cases "add_all ?kps s")
  from add_all_frame[OF a] have f: "fs s1 = fs s" by simp
  show ?case
  proof (cases r1)
    case (Inl e)
    with a show ?thesis
      by (simp add: read_included_doc[OF d] index_file_add_all[OF w] index_entries_Cons
          add_all_append)
  next
    case (Inr u)
    from Cons.prems f have "\<forall>p\<in>set ps. is_doc (fs s1) p \<and> wf_doc (doc_at (fs s1) p)" by simp
    from Cons.IH[OF this, unfolded f] Inr a show ?thesis
      by (simp add: read_included_doc[OF d] index_file_add_all[OF w] index_entries_Cons
          add_all_append split: prod.splits sum.splits)
  qed
qed


lemma patterns_of_iter:
  "patterns_of r pats \<Longrightarrow>
   bind_err (py_get (Map r) ''include_paths'' (Seq [])) py_iter
     = Inr (map (\<lambda>p. Scalar (SStr p)) pats)"
  by (auto simp: patterns_of_def py_get_def py_iter_def bind_err_def split: option.splits)

lemma resolve_include_paths_valid:
  "\<forall>p\<in>set (all_matches s pats). is_file (fs s) p \<Longrightarrow>
   resolve_include_paths (map (\<lambda>p. Scalar (SStr p)) pats) s = (Inr (resolved s pats), s)"
proof -
  assume "\<forall>p\<in>set (all_matches s pats). is_file (fs s) p"
  then have "\<forall>pattern\<in>set pats. \<forall>p\<in>set (glob s (fs s) pattern). is_file (fs s) p"
    by (auto simp: all_matches_def)
  from resolve_patterns_valid[OF this] show ?thesis
    by (simp add: resolve_include_paths_def resolved_def)
qed

lemma include_paths_cached:
  assumes "meltano_cache s = Map r" and "patterns_of r pats"
    and "\<forall>p\<in>set (all_matches s pats). is_file (fs s) p"
  shows "include_paths s = (Inr (resolved s pats), s)"
  using assms(1)
  by (simp add: include_paths_def bind_action_def meltano_def patterns_of_iter[OF assms(2)]
      resolve_include_paths_valid[OF assms(3)])

lemma include_paths_read:
  assumes "meltano_cache s = Scalar SNone"
    and "fs s (meltano_file_path s) = Some (Yaml (Map r))" and "patterns_of r pats"
    and "\<forall>p\<in>set (all_matches s pats). is_file (fs s) p"
  shows "include_paths s = (Inr (resolved s pats), s\<lparr>meltano_cache := Map r\<rparr>)"
proof -
  let ?s1 = "s\<lparr>meltano_cache := Map r\<rparr>"
  have m: "meltano s = (Inr (Map r), ?s1)" using assms(1,2) by (simp add: meltano_def)
  have am: "all_matches ?s1 pats = all_matches s pats" by (simp add: all_matches_def)
  have rs: "resolved ?s1 pats = resolved s pats" by (simp add: resolved_def)
  from assms(4) have "\<forall>p\<in>set (all_matches ?s1 pats). is_file (fs ?s1) p" by (simp add: am)
  from resolve_include_paths_valid[OF this] rs
  have "resolve_include_paths (map (\<lambda>p. Scalar (SStr p)) pats) ?s1 = (Inr (resolved s pats), ?s1)"
    by simp
  then show ?thesis
    by (simp add: include_paths_def bind_action_def m patterns_of_iter[OF assms(3)])
qed

lemma load_unfold:
  assumes "fs s (meltano_file_path s) = Some (Yaml (Map r))" and "patterns_of r pats"
    and "\<forall>p\<in>set (all_matches s pats). is_file (fs s) p"
    and "\<forall>p\<in>set (resolved s pats). is_doc (fs s) p \<and> wf_doc (doc_at (fs s) p)"
  shows "load s =
    (case add_all (index_entries (fs s) (resolved s pats))
            (s\<lparr>meltano_cache := Map r, plugin_file_map := Map.empty\<rparr>) of
       (Inl e, s') \<Rightarrow> (Inl e, s')
     | (Inr _, s') \<Rightarrow>
         (deep_merge (Map r) (map (\<lambda>p. Map (doc_at (fs s) p)) (resolved s pats)), s'))"
proof -
  let ?s0 = "s\<lparr>meltano_cache := Scalar SNone, plugin_file_map := Map.empty\<rparr>"
  let ?s1 = "s\<lparr>meltano_cache := Map r, plugin_file_map := Map.empty\<rparr>"
  have am: "all_matches ?s0 pats = all_matches s pats" by (simp add: all_matches_def)
  have rs: "resolved ?s0 pats = resolved s pats" by (simp add: resolved_def)
  have "include_paths ?s0 = (Inr (resolved ?s0 pats), ?s0\<lparr>meltano_cache := Map r\<rparr>)"
    using assms(1,3) by (intro include_paths_read[OF _ _ assms(2)]) (simp_all add: am)
  then have ip: "include_paths ?s0 = (Inr (resolved s pats), ?s1)" by (simp add: rs)
  from assms(4) have "\<forall>p\<in>set (resolved s pats). is_doc (fs ?s1) p \<and> wf_doc (doc_at (fs ?s1) p)"
    by simp
  note lp = load_paths_add_all[OF this, of "[]"]
  obtain r1 s2 where a: "add_all (index_entries (fs s) (resolved s pats)) ?s1 = (r1, s2)"
    by (cases "add_all (index_entries (fs s) (resolved s pats)) ?s1")
  from add_all_frame[OF a] have c: "meltano_cache s2 = Map r" by simp
  then have m: "meltano s2 = (Inr (Map r), s2)" by (simp add: meltano_def)
  have lif: "load_included_files (s\<lparr>meltano_cache := Scalar SNone\<rparr>) =
     (case r1 of Inl e \<Rightarrow> (Inl e, s2)
      | Inr _ \<Rightarrow> (Inr (map (\<lambda>p. Map (doc_at (fs s) p)) (resolved s pats)), s2))"
    using lp a by (simp add: load_included_files_def bind_action_def ip split: sum.splits)
  show ?thesis
    using a m by (simp add: load_def bind_action_def reset_cache_def lif split: sum.splits)
qed

lemma load_indexed:
  assumes "fs s (meltano_file_path s) = Some (Yaml (Map r))" and "patterns_of r pats"
    and "\<forall>p\<in>set (all_matches s pats). is_file (fs s) p"
    and "\<forall>p\<in>set (resolved s pats). is_doc (fs s) p \<and> wf_doc (doc_at (fs s) p)"
    and "distinct (map fst (index_entries (fs s) (resolved s pats)))"
  shows "load s =
    (deep_merge (Map r) (map (\<lambda>p. Map (doc_at (fs s) p)) (resolved s pats)),
     s\<lparr>meltano_cache := Map r,
       plugin_file_map := map_of (index_entries (fs s) (resolved s pats))\<rparr>)"
proof -
  let ?s1 = "s\<lparr>meltano_cache := Map r, plugin_file_map := Map.empty\<rparr>"
  have "\<forall>k\<in>set (map fst (index_entries (fs s) (resolved s pats))). plugin_file_map ?s1 k = None"
    by simp
  from add_all_fresh[OF assms(5) this] show ?thesis
    by (simp add: load_unfold[OF assms(1-4)])
qed


section \<open>Unfolding the operations on a concrete project\<close>

lemmas load_eval = load_def bind_action_def reset_cache_def load_included_files_def
  include_paths_def meltano_def py_get_def py_iter_def py_items_def resolve_include_paths_def
  is_valid_include_path_def is_file_def exists_def exact_glob_def fromkeys_def
  read_included_def index_file_def index_collection_def entity_key_def py_getitem_def
  py_hash_def add_to_index_def bind_err_def named_def setdefault_def

lemmas vocab_eval = all_matches_def resolved_def index_entries_def declared_keys_def
  plugin_keys_def doc_at_def is_doc_def wf_doc_def patterns_of_def seq_at_def map_at_def
  seq_or_absent_def map_or_absent_def named_entity_def name_of_def items_of_def is_seq_def
  is_str_def is_file_def exact_glob_def fromkeys_def named_def


section \<open>Facts about the split\<close>

lemma update_setdefault: "AList.update k v (snd (setdefault d k x)) = AList.update k v d"
proof (cases "map_of d k")
  case None
  then have "k \<notin> fst ` set d" by (simp add: map_of_eq_None_iff)
  then have "\<And>y. AList.update k v (d @ [(k, y)]) = d @ [(k, v)]"
    by (induction d) auto
  moreover from \<open>k \<notin> fst ` set d\<close> have "AList.update k v d = d @ [(k, v)]"
    by (induction d) auto
  ultimately show ?thesis using None by (simp add: setdefault_def)
next
  case (Some a) then show ?thesis by (simp add: setdefault_def)
qed

lemma setdefault_grp: "fst (setdefault fds f []) = grp fds f"
  by (simp add: setdefault_def grp_def split: option.splits)

lemma names_of_named: "list_all named_entity es \<Longrightarrow> names_of es = Inr (map name_of es)"
  by (induction es)
     (auto simp: named_entity_def name_of_def py_getitem_def py_hash_def
       split: val.splits option.splits)

lemma append_unless_named_Seq:
  "list_all named_entity es \<Longrightarrow> named_entity e \<Longrightarrow>
   append_unless_named (Seq es) e = Inr (Seq (snoc_unless_named es e))"
  by (auto simp: append_unless_named_def names_of_named py_iter_def snoc_unless_named_def
      named_entity_def name_of_def py_getitem_def py_hash_def
      split: val.splits option.splits)

lemma fst_setdefault_seq:
  "seq_or_absent d c \<Longrightarrow> fst (setdefault d c (Seq [])) = Seq (seq_at d c)"
  by (auto simp: setdefault_def seq_or_absent_def seq_at_def split: option.splits val.splits)

lemma fst_setdefault_map:
  "map_or_absent d c \<Longrightarrow> fst (setdefault d c (Map [])) = Map (map_at d c)"
  by (auto simp: setdefault_def map_or_absent_def map_at_def split: option.splits val.splits)

lemma add_named_put:
  assumes "seq_or_absent (grp fds f) coll" "list_all named_entity (seq_at (grp fds f) coll)"
    "named_entity e"
  shows "add_named coll fds f e =
     Inr (AList.update f
           (AList.update coll (Seq (snoc_unless_named (seq_at (grp fds f) coll) e)) (grp fds f))
           fds)"
  by (simp add: add_named_def Let_def split_def setdefault_grp fst_setdefault_seq[OF assms(1)]
      append_unless_named_Seq[OF assms(2,3)] update_setdefault)

lemma add_plugin_put:
  assumes "map_or_absent (grp fds f) ''plugins''"
    "seq_or_absent (map_at (grp fds f) ''plugins'') t"
    "list_all named_entity (seq_at (map_at (grp fds f) ''plugins'') t)"
    "named_entity e"
  shows "add_plugin fds f t e =
     Inr (AList.update f
           (AList.update ''plugins''
              (Map (AList.update t (Seq (snoc_unless_named (seq_at (map_at (grp fds f) ''plugins'') t) e))
                 (map_at (grp fds f) ''plugins''))) (grp fds f))
           fds)"
  by (simp add: add_plugin_def Let_def split_def setdefault_grp fst_setdefault_map[OF assms(1)]
      fst_setdefault_seq[OF assms(2)]
      append_unless_named_Seq[OF assms(3,4)] update_setdefault)


lemma list_all_update:
  "list_all P al \<Longrightarrow> P (k, v) \<Longrightarrow> list_all P (AList.update k v al)"
  by (induction al) auto

lemma distinct_update_keys: "distinct (map fst al) \<Longrightarrow> distinct (map fst (AList.update k v al))"
  by (simp add: distinct_update)


lemma wf_doc_Nil: "wf_doc []"
  by (simp add: wf_doc_def map_or_absent_def seq_or_absent_def map_at_def seq_at_def)

lemma wf_groups_grp: "wf_groups fds \<Longrightarrow> wf_doc (grp fds f)"
proof (cases "map_of fds f")
  case None then show ?thesis by (simp add: grp_def wf_doc_Nil)
next
  case (Some d)
  assume "wf_groups fds"
  with map_of_SomeD[OF Some] show ?thesis
    by (auto simp: wf_groups_def grp_def Some list_all_iff)
qed

lemma wf_groups_update: "wf_groups fds \<Longrightarrow> wf_doc d \<Longrightarrow> wf_groups (AList.update f d fds)"
  unfolding wf_groups_def by (rule list_all_update) simp_all

lemma seq_at_update: "seq_at (AList.update k v d) c = (if c = k then items_of v else seq_at d c)"
  by (auto simp: seq_at_def update_conv' items_of_def split: val.splits)

lemma map_at_update:
  "map_at (AList.update k v d) c = (if c = k then (case v of Map m \<Rightarrow> m | _ \<Rightarrow> []) else map_at d c)"
  by (auto simp: map_at_def update_conv' split: val.splits)

lemma seq_or_absent_update:
  "seq_or_absent (AList.update k v d) c = (if c = k then is_seq v else seq_or_absent d c)"
  by (auto simp: seq_or_absent_def update_conv' is_seq_def split: val.splits)

lemma map_or_absent_update:
  "map_or_absent (AList.update k v d) c
     = (if c = k then (case v of Map m \<Rightarrow> True | _ \<Rightarrow> False) else map_or_absent d c)"
  by (auto simp: map_or_absent_def update_conv' split: val.splits)

lemmas update_reads = seq_at_update map_at_update seq_or_absent_update map_or_absent_update

lemma wf_doc_update_coll:
  "wf_doc d \<Longrightarrow> coll = ''schedules'' \<or> coll = ''environments'' \<Longrightarrow> list_all named_entity es \<Longrightarrow>
   wf_doc (AList.update coll (Seq es) d)"
  by (auto simp: wf_doc_def update_reads is_seq_def items_of_def)

lemma wf_doc_update_plugins:
  "wf_doc d \<Longrightarrow>
   list_all (\<lambda>tv. is_seq (snd tv) \<and> list_all named_entity (items_of (snd tv))) pd \<Longrightarrow>
   wf_doc (AList.update ''plugins'' (Map pd) d)"
  by (auto simp: wf_doc_def update_reads)

lemma wf_doc_update_other:
  "wf_doc d \<Longrightarrow> k \<noteq> ''plugins'' \<Longrightarrow> k \<noteq> ''schedules'' \<Longrightarrow> k \<noteq> ''environments'' \<Longrightarrow>
   wf_doc (AList.update k v d)"
  by (auto simp: wf_doc_def update_reads)

lemma named_snoc:
  "list_all named_entity es \<Longrightarrow> named_entity e \<Longrightarrow> list_all named_entity (snoc_unless_named es e)"
  by (simp add: snoc_unless_named_def)

lemma wf_doc_coll:
  "wf_doc d \<Longrightarrow> coll = ''schedules'' \<or> coll = ''environments'' \<Longrightarrow>
   seq_or_absent d coll \<and> list_all named_entity (seq_at d coll)"
  by (auto simp: wf_doc_def)

lemma wf_doc_plugins:
  assumes "wf_doc d"
  shows "map_or_absent d ''plugins''"
    and "list_all (\<lambda>tv. is_seq (snd tv) \<and> list_all named_entity (items_of (snd tv)))
           (map_at d ''plugins'')"
    and "seq_or_absent (map_at d ''plugins'') t"
    and "list_all named_entity (seq_at (map_at d ''plugins'') t)"
proof -
  from assms show a: "map_or_absent d ''plugins''"
    and b: "list_all (\<lambda>tv. is_seq (snd tv) \<and> list_all named_entity (items_of (snd tv)))
           (map_at d ''plugins'')"
    by (simp_all add: wf_doc_def)
  show "seq_or_absent (map_at d ''plugins'') t"
  proof (cases "map_of (map_at d ''plugins'') t")
    case None then show ?thesis by (simp add: seq_or_absent_def)
  next
    case (Some v)
    from map_of_SomeD[OF Some] b have "is_seq v" by (auto simp: list_all_iff)
    with Some show ?thesis by (auto simp: seq_or_absent_def is_seq_def split: val.splits)
  qed
  show "list_all named_entity (seq_at (map_at d ''plugins'') t)"
  proof (cases "map_of (map_at d ''plugins'') t")
    case None then show ?thesis by (simp add: seq_at_def)
  next
    case (Some v)
    from map_of_SomeD[OF Some] b have "list_all named_entity (items_of v)"
      by (auto simp: list_all_iff)
    with Some show ?thesis by (auto simp: seq_at_def items_of_def split: val.splits)
  qed
qed

lemma put_entity_wf:
  assumes "wf_groups fds" "coll = ''schedules'' \<or> coll = ''environments''" "named_entity e"
  shows "wf_groups (put_entity coll s fds e)"
proof -
  let ?f = "file_of s [SStr coll, name_of e]"
  from wf_groups_grp[OF assms(1)] have w: "wf_doc (grp fds ?f)" .
  from wf_doc_coll[OF w assms(2)] have "list_all named_entity (seq_at (grp fds ?f) coll)" by simp
  from named_snoc[OF this assms(3)] wf_doc_update_coll[OF w assms(2)]
  have "wf_doc (AList.update coll (Seq (snoc_unless_named (seq_at (grp fds ?f) coll) e)) (grp fds ?f))"
    by simp
  from wf_groups_update[OF assms(1) this] show ?thesis by (simp add: put_entity_def Let_def)
qed

lemma put_plugin_wf:
  assumes "wf_groups fds" "named_entity e"
  shows "wf_groups (put_plugin t s fds e)"
proof -
  let ?f = "file_of s [SStr ''plugins'', SStr t, name_of e]"
  let ?pd = "map_at (grp fds ?f) ''plugins''"
  from wf_groups_grp[OF assms(1)] have w: "wf_doc (grp fds ?f)" .
  note p = wf_doc_plugins[OF w]
  from named_snoc[OF p(4) assms(2)]
  have "list_all named_entity (snoc_unless_named (seq_at ?pd t) e)" .
  with p(2) have "list_all (\<lambda>tv. is_seq (snd tv) \<and> list_all named_entity (items_of (snd tv)))
      (AList.update t (Seq (snoc_unless_named (seq_at ?pd t) e)) ?pd)"
    by (intro list_all_update) (simp_all add: is_seq_def items_of_def)
  from wf_doc_update_plugins[OF w this] wf_groups_update[OF assms(1)] show ?thesis
    by (simp add: put_plugin_def Let_def)
qed

lemma foldl_put_entity_wf:
  "wf_groups fds \<Longrightarrow> coll = ''schedules'' \<or> coll = ''environments'' \<Longrightarrow>
   list_all named_entity es \<Longrightarrow> wf_groups (foldl (put_entity coll s) fds es)"
  by (induction es arbitrary: fds) (simp_all add: put_entity_wf)

lemma foldl_put_plugin_wf:
  "wf_groups fds \<Longrightarrow> list_all named_entity es \<Longrightarrow> wf_groups (foldl (put_plugin t s) fds es)"
  by (induction es arbitrary: fds) (simp_all add: put_plugin_wf)

lemma add_entities_put:
  "wf_groups fds \<Longrightarrow> coll = ''schedules'' \<or> coll = ''environments'' \<Longrightarrow>
   list_all named_entity es \<Longrightarrow>
   add_entities coll s fds es = Inr (foldl (put_entity coll s) fds es)"
proof (induction es arbitrary: fds)
  case Nil show ?case by simp
next
  case (Cons e es)
  from Cons.prems have ne: "named_entity e" and nes: "list_all named_entity es" by simp_all
  let ?f = "file_of s [SStr coll, name_of e]"
  from wf_groups_grp[OF Cons.prems(1)] have w: "wf_doc (grp fds ?f)" .
  from wf_doc_coll[OF w Cons.prems(2)]
  have a: "seq_or_absent (grp fds ?f) coll" "list_all named_entity (seq_at (grp fds ?f) coll)"
    by simp_all
  have step: "add_named coll fds ?f e = Inr (put_entity coll s fds e)"
    by (simp add: add_named_put[OF a ne] put_entity_def Let_def)
  from put_entity_wf[OF Cons.prems(1,2) ne] have "wf_groups (put_entity coll s fds e)" .
  from Cons.IH[OF this Cons.prems(2) nes] step show ?case
    by (simp add: entity_key_named[OF ne])
qed

lemma add_plugins_of_type_put:
  "wf_groups fds \<Longrightarrow> list_all named_entity es \<Longrightarrow>
   add_plugins_of_type s fds t es = Inr (foldl (put_plugin t s) fds es)"
proof (induction es arbitrary: fds)
  case Nil show ?case by simp
next
  case (Cons e es)
  from Cons.prems have ne: "named_entity e" and nes: "list_all named_entity es" by simp_all
  let ?f = "file_of s [SStr ''plugins'', SStr t, name_of e]"
  from wf_groups_grp[OF Cons.prems(1)] have w: "wf_doc (grp fds ?f)" .
  note p = wf_doc_plugins[OF w]
  have step: "add_plugin fds ?f t e = Inr (put_plugin t s fds e)"
    by (simp add: add_plugin_put[OF p(1) p(3) p(4) ne] put_plugin_def Let_def)
  from ne have g: "bind_err (py_get e ''name'' (Scalar SNone)) py_hash = Inr (name_of e)"
    by (auto simp: named_entity_def name_of_def py_get_def py_hash_def
        split: val.splits option.splits)
  then have g': "\<And>h. bind_err (py_get e ''name'' (Scalar SNone)) (\<lambda>name. bind_err (py_hash name) h)
      = h (name_of e)"
    by (cases "py_get e ''name'' (Scalar SNone)") (auto split: sum.splits)
  from put_plugin_wf[OF Cons.prems(1) ne] have "wf_groups (put_plugin t s fds e)" .
  from Cons.IH[OF this nes] step show ?case
    by (simp add: g')
qed


lemma put_plugins_Cons:
  "put_plugins s fds (tv # plugins)
     = put_plugins s (foldl (put_plugin (fst tv) s) fds (items_of (snd tv))) plugins"
  by (simp add: put_plugins_def)

lemma put_plugins_wf:
  "wf_groups fds \<Longrightarrow>
   list_all (\<lambda>tv. is_seq (snd tv) \<and> list_all named_entity (items_of (snd tv))) plugins \<Longrightarrow>
   wf_groups (put_plugins s fds plugins)"
  by (induction plugins arbitrary: fds) (simp_all add: put_plugins_def foldl_put_plugin_wf)

lemma add_plugins_put:
  "wf_groups fds \<Longrightarrow>
   list_all (\<lambda>tv. is_seq (snd tv) \<and> list_all named_entity (items_of (snd tv))) plugins \<Longrightarrow>
   add_plugins s fds plugins = Inr (put_plugins s fds plugins)"
proof (induction plugins arbitrary: fds)
  case Nil show ?case by (simp add: put_plugins_def)
next
  case (Cons tv plugins)
  obtain t v where tv: "tv = (t, v)" by (cases tv)
  from Cons.prems tv obtain ps where v: "v = Seq ps" and n: "list_all named_entity ps"
    by (cases v) (auto simp: is_seq_def items_of_def)
  from Cons.prems have r: "list_all (\<lambda>tv. is_seq (snd tv) \<and> list_all named_entity (items_of (snd tv))) plugins"
    by simp
  from foldl_put_plugin_wf[OF Cons.prems(1) n] have "wf_groups (foldl (put_plugin t s) fds ps)" .
  from Cons.IH[OF this r] show ?case
    by (simp add: tv v py_iter_def add_plugins_of_type_put[OF Cons.prems(1) n]
        put_plugins_Cons items_of_def)
qed

lemma put_item_wf:
  assumes "wf_groups fds" "wf_doc [kv]"
  shows "wf_groups (put_item s fds kv)"
proof -
  obtain k v where kv: "kv = (k, v)" by (cases kv)
  consider "k = ''plugins''" | "k = ''schedules''" | "k = ''environments''"
    | "k \<noteq> ''plugins''" "k \<noteq> ''schedules''" "k \<noteq> ''environments''" by blast
  then show ?thesis
  proof cases
    case 1
    with assms(2) kv have "list_all (\<lambda>tv. is_seq (snd tv) \<and> list_all named_entity (items_of (snd tv)))
        (map_at [kv] ''plugins'')" by (simp add: wf_doc_def)
    from put_plugins_wf[OF assms(1) this] 1 kv show ?thesis by (simp add: put_item_def)
  next
    case 2
    with assms(2) kv have "list_all named_entity (items_of v)"
      by (auto simp: wf_doc_def seq_at_def items_of_def split: val.splits)
    from foldl_put_entity_wf[OF assms(1) _ this, of "''schedules''"] 2 kv show ?thesis
      by (simp add: put_item_def)
  next
    case 3
    with assms(2) kv have "list_all named_entity (items_of v)"
      by (auto simp: wf_doc_def seq_at_def items_of_def split: val.splits)
    from foldl_put_entity_wf[OF assms(1) _ this, of "''environments''"] 3 kv show ?thesis
      by (simp add: put_item_def)
  next
    case 4
    from wf_doc_update_other[OF wf_groups_grp[OF assms(1)] 4]
    have "wf_doc (AList.update k v (grp fds (meltano_file_path s)))" .
    from wf_groups_update[OF assms(1) this] 4 kv show ?thesis by (simp add: put_item_def)
  qed
qed

lemma split_items_put:
  "wf_groups fds \<Longrightarrow> list_all (\<lambda>kv. wf_doc [kv]) items \<Longrightarrow>
   split_items s fds items = Inr (foldl (put_item s) fds items)"
proof (induction items arbitrary: fds)
  case Nil show ?case by simp
next
  case (Cons kv items)
  obtain k v where kv: "kv = (k, v)" by (cases kv)
  from Cons.prems have w: "wf_doc [kv]" and ws: "list_all (\<lambda>kv. wf_doc [kv]) items" by simp_all
  from put_item_wf[OF Cons.prems(1) w] have "wf_groups (put_item s fds kv)" .
  note ih = Cons.IH[OF this ws]
  consider "k = ''plugins''" | "k = ''schedules''" | "k = ''environments''"
    | "k \<noteq> ''plugins''" "k \<noteq> ''schedules''" "k \<noteq> ''environments''" by blast
  then show ?case
  proof cases
    case 1
    with w kv obtain m where v: "v = Map m"
      by (cases v) (auto simp: wf_doc_def map_or_absent_def)
    with w kv 1 have "list_all (\<lambda>tv. is_seq (snd tv) \<and> list_all named_entity (items_of (snd tv))) m"
      by (simp add: wf_doc_def map_at_def)
    from add_plugins_put[OF Cons.prems(1) this] ih 1 kv v show ?thesis
      by (simp add: put_item_def py_items_def map_at_def)
  next
    case 2
    with w kv obtain es where v: "v = Seq es"
      by (cases v) (auto simp: wf_doc_def seq_or_absent_def)
    with w kv 2 have "list_all named_entity es" by (simp add: wf_doc_def seq_at_def)
    from add_entities_put[OF Cons.prems(1) _ this, of "''schedules''"] ih 2 kv v show ?thesis
      by (simp add: put_item_def py_iter_def items_of_def)
  next
    case 3
    with w kv obtain es where v: "v = Seq es"
      by (cases v) (auto simp: wf_doc_def seq_or_absent_def)
    with w kv 3 have "list_all named_entity es" by (simp add: wf_doc_def seq_at_def)
    from add_entities_put[OF Cons.prems(1) _ this, of "''environments''"] ih 3 kv v show ?thesis
      by (simp add: put_item_def py_iter_def items_of_def)
  next
    case 4
    with ih kv show ?thesis
      by (simp add: put_item_def Let_def split_def setdefault_grp update_setdefault)
  qed
qed

lemma wf_doc_items:
  assumes "distinct (map fst items)" "wf_doc items"
  shows "list_all (\<lambda>kv. wf_doc [kv]) items"
proof -
  { fix k v assume "(k, v) \<in> set items"
    with assms(1) have m: "map_of items k = Some v" by simp
    consider "k = ''plugins''" | "k = ''schedules''" | "k = ''environments''"
      | "k \<noteq> ''plugins''" "k \<noteq> ''schedules''" "k \<noteq> ''environments''" by blast
    then have "wf_doc [(k, v)]"
    proof cases
      case 1
      from assms(2) have "map_or_absent items ''plugins''"
        "list_all (\<lambda>tv. is_seq (snd tv) \<and> list_all named_entity (items_of (snd tv)))
           (map_at items ''plugins'')" by (simp_all add: wf_doc_def)
      with m 1 show ?thesis
        by (cases v)
           (simp_all add: wf_doc_def map_or_absent_def seq_or_absent_def map_at_def seq_at_def)
    next
      case 2
      from assms(2) have "seq_or_absent items ''schedules''"
        "list_all named_entity (seq_at items ''schedules'')" by (simp_all add: wf_doc_def)
      with m 2 show ?thesis
        by (cases v)
           (simp_all add: wf_doc_def map_or_absent_def seq_or_absent_def map_at_def seq_at_def)
    next
      case 3
      from assms(2) have "seq_or_absent items ''environments''"
        "list_all named_entity (seq_at items ''environments'')" by (simp_all add: wf_doc_def)
      with m 3 show ?thesis
        by (cases v)
           (simp_all add: wf_doc_def map_or_absent_def seq_or_absent_def map_at_def seq_at_def)
    next
      case 4
      then show ?thesis
        by (simp add: wf_doc_def map_or_absent_def seq_or_absent_def map_at_def seq_at_def)
    qed }
  then show ?thesis by (auto simp: list_all_iff)
qed

lemma foldl_put_item_wf:
  "wf_groups fds \<Longrightarrow> list_all (\<lambda>kv. wf_doc [kv]) items \<Longrightarrow>
   wf_groups (foldl (put_item s) fds items)"
  by (induction items arbitrary: fds) (simp_all add: put_item_wf)


subsection \<open>What the folds leave in each partial document\<close>





lemma foldl_put_entity_dom:
  "fst ` set (foldl (put_entity coll s) fds es)
     = fst ` set fds \<union> (\<lambda>e. file_of s [SStr coll, name_of e]) ` set es"
  by (induction es arbitrary: fds) (auto simp: put_entity_def Let_def dom_update)

lemma foldl_put_entity_distinct:
  "distinct (map fst fds) \<Longrightarrow> distinct (map fst (foldl (put_entity coll s) fds es))"
  by (induction es arbitrary: fds) (auto simp: put_entity_def Let_def distinct_update)




lemma foldl_put_plugin_dom:
  "fst ` set (foldl (put_plugin t s) fds es)
     = fst ` set fds \<union> (\<lambda>e. file_of s [SStr ''plugins'', SStr t, name_of e]) ` set es"
  by (induction es arbitrary: fds) (auto simp: put_plugin_def Let_def dom_update)

lemma foldl_put_plugin_distinct:
  "distinct (map fst fds) \<Longrightarrow> distinct (map fst (foldl (put_plugin t s) fds es))"
  by (induction es arbitrary: fds) (auto simp: put_plugin_def Let_def distinct_update)







lemma put_plugins_dom:
  "fst ` set (put_plugins s fds plugins)
     = fst ` set fds \<union>
       (\<Union>tv\<in>set plugins.
          (\<lambda>e. file_of s [SStr ''plugins'', SStr (fst tv), name_of e]) ` set (items_of (snd tv)))"
  by (induction plugins arbitrary: fds) (auto simp: put_plugins_Cons foldl_put_plugin_dom put_plugins_def)

lemma put_plugins_distinct:
  "distinct (map fst fds) \<Longrightarrow> distinct (map fst (put_plugins s fds plugins))"
  by (induction plugins arbitrary: fds) (simp_all add: put_plugins_def foldl_put_plugin_distinct)

lemma put_item_distinct:
  "distinct (map fst fds) \<Longrightarrow> distinct (map fst (put_item s fds kv))"
  by (simp add: put_item_def put_plugins_distinct foldl_put_entity_distinct distinct_update)

lemma foldl_put_item_distinct:
  "distinct (map fst fds) \<Longrightarrow> distinct (map fst (foldl (put_item s) fds items))"
  by (induction items arbitrary: fds) (simp_all add: put_item_distinct)






section \<open>Facts about \<open>update\<close>\<close>

lemma write_files_ok:
  "distinct (map fst ws) \<Longrightarrow> \<forall>p\<in>fst ` set ws. fs s p \<noteq> Some Directory \<Longrightarrow>
   write_files ws s = (Inr (), s\<lparr>fs := overwrite ws (fs s)\<rparr>)"
proof (induction ws arbitrary: s)
  case Nil show ?case by (simp add: overwrite_def)
next
  case (Cons pc ws)
  obtain p c where pc: "pc = (p, c)" by (cases pc)
  let ?s1 = "s\<lparr>fs := (fs s)(p \<mapsto> Yaml c)\<rparr>"
  from Cons.prems pc have d: "distinct (map fst ws)" and n: "p \<notin> fst ` set ws"
    and nd: "fs s p \<noteq> Some Directory" by auto
  from Cons.prems(2) n pc have "\<forall>q\<in>fst ` set ws. fs ?s1 q \<noteq> Some Directory" by auto
  from Cons.IH[OF d this] have ih: "write_files ws ?s1 = (Inr (), ?s1\<lparr>fs := overwrite ws (fs ?s1)\<rparr>)" .
  from n have "map_of ws p = None" by (simp add: map_of_eq_None_iff)
  then have "overwrite ws (fs ?s1) = overwrite (pc # ws) (fs s)"
    by (intro ext) (auto simp: overwrite_def pc split: option.splits)
  with ih nd show ?case by (simp add: pc write_file_def)
qed

lemma write_files_Inr:
  "write_files ws s = (Inr u, s') \<Longrightarrow> distinct (map fst ws) \<Longrightarrow>
   \<forall>p\<in>fst ` set ws. fs s p \<noteq> Some Directory"
proof (induction ws arbitrary: s)
  case Nil show ?case by simp
next
  case (Cons pc ws)
  obtain p c where pc: "pc = (p, c)" by (cases pc)
  let ?s1 = "s\<lparr>fs := (fs s)(p \<mapsto> Yaml c)\<rparr>"
  from Cons.prems pc have nd: "fs s p \<noteq> Some Directory" and w: "write_files ws ?s1 = (Inr u, s')"
    by (auto simp: write_file_def split: if_splits)
  from Cons.prems pc have d: "distinct (map fst ws)" and n: "p \<notin> fst ` set ws" by auto
  have "\<forall>q\<in>fst ` set ws. fs s q \<noteq> Some Directory"
  proof
    fix q assume q: "q \<in> fst ` set ws"
    with n have "q \<noteq> p" by auto
    with Cons.IH[OF w d] q show "fs s q \<noteq> Some Directory" by auto
  qed
  with nd show ?case by (simp add: pc)
qed

lemma write_files_result:
  assumes "write_files ws s = (Inr u, s')" "distinct (map fst ws)"
  shows "s' = s\<lparr>fs := overwrite ws (fs s)\<rparr>"
  using write_files_ok[OF assms(2) write_files_Inr[OF assms]] assms(1) by simp

lemma check_paths_frame:
  "check_paths acc ps s = (r, s') \<Longrightarrow>
   fs s' = fs s \<and> glob s' = glob s \<and> meltano_cache s' = meltano_cache s
   \<and> meltano_file_path s' = meltano_file_path s \<and> plugin_file_map s' = plugin_file_map s"
  by (induction ps arbitrary: acc) (auto split: sum.splits)

lemma resolve_patterns_frame:
  "resolve_patterns acc pats s = (r, s') \<Longrightarrow>
   fs s' = fs s \<and> glob s' = glob s \<and> meltano_cache s' = meltano_cache s
   \<and> meltano_file_path s' = meltano_file_path s \<and> plugin_file_map s' = plugin_file_map s"
proof (induction acc pats s rule: resolve_patterns.induct)
  case (1 include_paths s) then show ?case by simp
next
  case (2 include_paths pattern patterns s)
  obtain r1 s1 where c: "check_paths include_paths (glob s (fs s) pattern) s = (r1, s1)"
    by (cases "check_paths include_paths (glob s (fs s) pattern) s")
  note f = check_paths_frame[OF c]
  show ?case
  proof (cases r1)
    case (Inl e) with 2(2) c f show ?thesis by simp
  next
    case (Inr acc')
    with 2(2) c have "resolve_patterns
            (if meltano_file_path s1 \<in> set acc'
             then remove1 (meltano_file_path s1) acc' else acc') patterns s1 = (r, s')" by simp
    from 2(1)[OF c[symmetric] Inr this] f Inr show ?thesis by simp
  qed
qed auto


lemma meltano_frame:
  "meltano s = (r, s') \<Longrightarrow>
   fs s' = fs s \<and> glob s' = glob s
   \<and> meltano_file_path s' = meltano_file_path s \<and> plugin_file_map s' = plugin_file_map s"
  by (auto simp: meltano_def split: if_splits option.splits entry.splits)

lemma resolve_include_paths_frame:
  "resolve_include_paths pats s = (r, s') \<Longrightarrow>
   fs s' = fs s \<and> glob s' = glob s \<and> meltano_cache s' = meltano_cache s
   \<and> meltano_file_path s' = meltano_file_path s \<and> plugin_file_map s' = plugin_file_map s"
proof -
  assume a: "resolve_include_paths pats s = (r, s')"
  obtain r1 s1 where b: "resolve_patterns [] pats s = (r1, s1)"
    by (cases "resolve_patterns [] pats s")
  from a b have "s' = s1" by (auto simp: resolve_include_paths_def split: sum.splits)
  with resolve_patterns_frame[OF b] show ?thesis by simp
qed

lemma include_paths_frame:
  assumes "include_paths s = (r, s')"
  shows "fs s' = fs s \<and> glob s' = glob s
   \<and> meltano_file_path s' = meltano_file_path s \<and> plugin_file_map s' = plugin_file_map s"
proof -
  obtain r1 s1 where m: "meltano s = (r1, s1)" by (cases "meltano s")
  note f1 = meltano_frame[OF m]
  show ?thesis
  proof (cases r1)
    case (Inl e)
    with assms m f1 show ?thesis by (simp add: include_paths_def bind_action_def)
  next
    case (Inr v)
    show ?thesis
    proof (cases "bind_err (py_get v ''include_paths'' (Seq [])) py_iter")
      case (Inl e)
      with assms m f1 Inr show ?thesis by (simp add: include_paths_def bind_action_def)
    next
      case r: (Inr pats)
      with assms m Inr have "resolve_include_paths pats s1 = (r, s')"
        by (simp add: include_paths_def bind_action_def)
      from resolve_include_paths_frame[OF this] f1 show ?thesis by simp
    qed
  qed
qed

lemma check_paths_Inr:
  "check_paths acc ps s = (Inr acc', s') \<Longrightarrow>
   acc' = acc @ ps \<and> (\<forall>p\<in>set ps. is_file (fs s) p) \<and> s' = s"
proof (induction ps arbitrary: acc)
  case Nil then show ?case by simp
next
  case (Cons p ps)
  from Cons.prems have v: "is_valid_include_path s p = Inr ()"
    and r: "check_paths (acc @ [p]) ps s = (Inr acc', s')"
    by (auto split: sum.splits)
  from v have "is_file (fs s) p" by (auto simp: is_valid_include_path_def split: if_splits)
  with Cons.IH[OF r] show ?case by simp
qed

lemma resolve_patterns_Inr:
  "resolve_patterns acc pats s = (Inr acc', s') \<Longrightarrow>
   (\<forall>p\<in>set acc. is_file (fs s) p) \<Longrightarrow> (\<forall>p\<in>set acc'. is_file (fs s) p) \<and> s' = s"
proof (induction acc pats s rule: resolve_patterns.induct)
  case (1 include_paths s) then show ?case by simp
next
  case (2 include_paths pattern patterns s)
  obtain r1 s1 where c: "check_paths include_paths (glob s (fs s) pattern) s = (r1, s1)"
    by (cases "check_paths include_paths (glob s (fs s) pattern) s")
  show ?case
  proof (cases r1)
    case (Inl e) with 2(2) c show ?thesis by simp
  next
    case (Inr a)
    from check_paths_Inr[OF c[unfolded Inr]]
    have a: "a = include_paths @ glob s (fs s) pattern"
      and v: "\<forall>p\<in>set (glob s (fs s) pattern). is_file (fs s) p" and s1: "s1 = s" by simp_all
    let ?a = "if meltano_file_path s1 \<in> set a then remove1 (meltano_file_path s1) a else a"
    from 2(2) c Inr have r: "resolve_patterns ?a patterns s1 = (Inr acc', s')" by simp
    from a v 2(3) have "\<forall>p\<in>set a. is_file (fs s) p" by auto
    then have "\<forall>p\<in>set ?a. is_file (fs s1) p"
      using s1 by (auto dest: notin_set_remove1)
    from 2(1)[OF c[symmetric] Inr r this] s1 show ?thesis by simp
  qed
qed auto

lemma include_paths_Inr:
  assumes "include_paths s = (Inr ps, s')"
  shows "distinct ps \<and> (\<forall>p\<in>set ps. is_file (fs s) p)"
proof -
  obtain r1 s1 where m: "meltano s = (r1, s1)" by (cases "meltano s")
  note f1 = meltano_frame[OF m]
  from assms m obtain v where r1: "r1 = Inr v"
    by (cases r1) (auto simp: include_paths_def bind_action_def)
  from assms m r1 obtain pats where
    p: "bind_err (py_get v ''include_paths'' (Seq [])) py_iter = Inr pats"
    by (cases "bind_err (py_get v ''include_paths'' (Seq [])) py_iter")
       (auto simp: include_paths_def bind_action_def)
  from assms m r1 p have "resolve_include_paths pats s1 = (Inr ps, s')"
    by (simp add: include_paths_def bind_action_def)
  then obtain acc where a: "resolve_patterns [] pats s1 = (Inr acc, s')" and ps: "ps = fromkeys acc"
    by (auto simp: resolve_include_paths_def split: sum.splits prod.splits)
  from resolve_patterns_Inr[OF a] have "\<forall>p\<in>set acc. is_file (fs s1) p" by simp
  with ps f1 show ?thesis by (simp add: distinct_fromkeys set_fromkeys)
qed


lemma bind_err_InrE:
  assumes "bind_err m f = Inr y"
  obtains x where "m = Inr x" "f x = Inr y"
  using assms by (cases m) auto

lemma add_plugin_keys:
  "add_plugin fds f t e = Inr fds' \<Longrightarrow> \<exists>X. fds' = AList.update f X fds"
  by (auto simp: add_plugin_def Let_def split_def update_setdefault
      split: val.splits elim!: bind_err_InrE)

lemma add_named_keys:
  "add_named coll fds f e = Inr fds' \<Longrightarrow> \<exists>X. fds' = AList.update f X fds"
  by (auto simp: add_named_def Let_def split_def update_setdefault elim!: bind_err_InrE)

lemma add_plugins_of_type_distinct:
  "add_plugins_of_type s fds t es = Inr fds' \<Longrightarrow> distinct (map fst fds) \<Longrightarrow>
   distinct (map fst fds')"
proof (induction es arbitrary: fds)
  case Nil then show ?case by simp
next
  case (Cons e es)
  from Cons.prems(1) obtain h fds1 where
    a: "add_plugin fds (file_of s [SStr ''plugins'', SStr t, h]) t e = Inr fds1"
    and r: "add_plugins_of_type s fds1 t es = Inr fds'"
    by (auto elim!: bind_err_InrE)
  from add_plugin_keys[OF a] Cons.prems(2) have "distinct (map fst fds1)"
    by (auto simp: distinct_update)
  from Cons.IH[OF r this] show ?case .
qed

lemma add_plugins_distinct:
  "add_plugins s fds plugins = Inr fds' \<Longrightarrow> distinct (map fst fds) \<Longrightarrow>
   distinct (map fst fds')"
proof (induction plugins arbitrary: fds)
  case Nil then show ?case by simp
next
  case (Cons tv plugins)
  obtain t v where tv: "tv = (t, v)" by (cases tv)
  from Cons.prems(1) tv obtain ps fds1 where
    a: "add_plugins_of_type s fds t ps = Inr fds1" and r: "add_plugins s fds1 plugins = Inr fds'"
    by (auto elim!: bind_err_InrE)
  from Cons.IH[OF r add_plugins_of_type_distinct[OF a Cons.prems(2)]] show ?case .
qed

lemma add_entities_distinct:
  "add_entities coll s fds es = Inr fds' \<Longrightarrow> distinct (map fst fds) \<Longrightarrow>
   distinct (map fst fds')"
proof (induction es arbitrary: fds)
  case Nil then show ?case by simp
next
  case (Cons e es)
  from Cons.prems(1) obtain k fds1 where
    a: "add_named coll fds (file_of s k) e = Inr fds1"
    and r: "add_entities coll s fds1 es = Inr fds'"
    by (auto elim!: bind_err_InrE)
  from add_named_keys[OF a] Cons.prems(2) have "distinct (map fst fds1)"
    by (auto simp: distinct_update)
  from Cons.IH[OF r this] show ?case .
qed

lemma split_items_distinct:
  "split_items s fds items = Inr fds' \<Longrightarrow> distinct (map fst fds) \<Longrightarrow>
   distinct (map fst fds')"
proof (induction items arbitrary: fds)
  case Nil then show ?case by simp
next
  case (Cons kv items)
  obtain k v where kv: "kv = (k, v)" by (cases kv)
  from Cons.prems(1) kv obtain fds1 where
    a: "(if k = ''plugins'' then bind_err (py_items v) (add_plugins s fds)
        else if k = ''schedules'' then bind_err (py_iter v) (add_entities ''schedules'' s fds)
        else if k = ''environments'' then
          bind_err (py_iter v) (add_entities ''environments'' s fds)
        else
          (let (file_dict, fds1) = setdefault fds (meltano_file_path s) []
           in Inr (AList.update (meltano_file_path s) (AList.update k v file_dict) fds1))) = Inr fds1"
    and r: "split_items s fds1 items = Inr fds'"
    by (auto elim!: bind_err_InrE)
  from a Cons.prems(2) have "distinct (map fst fds1)"
    by (auto simp: Let_def split_def update_setdefault distinct_update
        split: if_splits elim!: bind_err_InrE
        dest: add_plugins_distinct add_entities_distinct)
  from Cons.IH[OF r this] show ?case .
qed

lemma split_config_dict_Inr:
  assumes "split_config_dict s c = Inr fds"
  shows "\<exists>items. c = Map items \<and> split_items s [] items = Inr fds
     \<and> map_of fds (meltano_file_path s) \<noteq> None \<and> distinct (map fst fds)"
proof -
  from assms obtain items where i: "py_items c = Inr items"
    and r: "split_items s [] items = Inr fds" and m: "map_of fds (meltano_file_path s) \<noteq> None"
    by (auto simp: split_config_dict_def split: option.splits elim!: bind_err_InrE)
  from i have "c = Map items" by (cases c) (auto simp: py_items_def)
  with r m split_items_distinct[OF r] show ?thesis by simp
qed

lemma update_Inr:
  assumes "update c s = (Inr r, s')"
  shows "\<exists>fds ps s1.
     split_config_dict s c = Inr fds
     \<and> include_paths (s\<lparr>fs := overwrite (group_writes fds) (fs s)\<rparr>) = (Inr ps, s1)
     \<and> s' = s1\<lparr>fs := overwrite (blank_writes fds ps) (overwrite (group_writes fds) (fs s)),
               meltano_cache := Scalar SNone\<rparr>
     \<and> r = c"
proof -
  from assms obtain fds where sp: "split_config_dict s c = Inr fds"
    by (cases "split_config_dict s c") (auto simp: update_def)
  from split_config_dict_Inr[OF sp] have d: "distinct (map fst fds)" by blast
  then have dg: "distinct (map fst (group_writes fds))"
    by (simp add: group_writes_def comp_def split_def)
  obtain r1 s1 where w1: "write_files (group_writes fds) s = (r1, s1)"
    by (cases "write_files (group_writes fds) s")
  from assms sp w1 obtain u where r1: "r1 = Inr u"
    by (cases r1) (auto simp: update_def bind_action_def group_writes_def)
  from write_files_result[OF w1[unfolded r1] dg]
  have s1: "s1 = s\<lparr>fs := overwrite (group_writes fds) (fs s)\<rparr>" .
  obtain r2 s2 where ip: "include_paths s1 = (r2, s2)" by (cases "include_paths s1")
  from assms sp w1 r1 ip obtain ps where r2: "r2 = Inr ps"
    by (cases r2) (auto simp: update_def bind_action_def group_writes_def)
  from include_paths_Inr[OF ip[unfolded r2]] have dps: "distinct ps" by simp
  then have db: "distinct (map fst (blank_writes fds ps))"
    by (simp add: blank_writes_def comp_def distinct_map_filter)
  obtain r3 s3 where w2: "write_files (blank_writes fds ps) s2 = (r3, s3)"
    by (cases "write_files (blank_writes fds ps) s2")
  from assms sp w1 r1 ip r2 w2 obtain u' where r3: "r3 = Inr u'"
    by (cases r3) (auto simp: update_def bind_action_def group_writes_def blank_writes_def)
  from write_files_result[OF w2[unfolded r3] db]
  have s3: "s3 = s2\<lparr>fs := overwrite (blank_writes fds ps) (fs s2)\<rparr>" .
  from include_paths_frame[OF ip] s1 have f2: "fs s2 = overwrite (group_writes fds) (fs s)" by simp
  from assms sp w1 r1 ip r2 w2 r3
  have "s' = s3\<lparr>meltano_cache := Scalar SNone\<rparr>" and "r = c"
    by (auto simp: update_def bind_action_def group_writes_def blank_writes_def reset_cache_def)
  with s3 f2 sp ip r2 s1 show ?thesis by simp
qed

section \<open>The file system after \<open>update\<close>, and the files the split uses\<close>





lemma put_plugins_dom_files:
  "fst ` set (put_plugins s fds plugins)
     = fst ` set fds \<union> set (item_files s (''plugins'', Map plugins))"
  by (auto simp: put_plugins_dom item_files_def map_at_def)

lemma put_item_dom:
  "fst ` set (put_item s fds kv) = fst ` set fds \<union> set (item_files s kv)"
proof -
  obtain k v where kv: "kv = (k, v)" by (cases kv)
  show ?thesis
    unfolding kv
    by (auto simp: put_item_def item_files_def put_plugins_dom foldl_put_entity_dom dom_update)
qed

lemma foldl_put_item_dom:
  "fst ` set (foldl (put_item s) fds items) = fst ` set fds \<union> set (assigned_files s items)"
  by (induction items arbitrary: fds) (auto simp: put_item_dom assigned_files_def)

section \<open>Which entity ends up in which partial document\<close>






lemma foldl_snoc_distinct:
  "distinct (map name_of (acc @ xs)) \<Longrightarrow> foldl snoc_unless_named acc xs = acc @ xs"
proof (induction xs arbitrary: acc)
  case Nil show ?case by simp
next
  case (Cons e xs)
  from Cons.prems have "name_of e \<notin> name_of ` set acc" by auto
  then have s: "snoc_unless_named acc e = acc @ [e]" by (simp add: snoc_unless_named_def)
  from Cons.prems have "distinct (map name_of ((acc @ [e]) @ xs))" by simp
  from Cons.IH[OF this] s show ?case by simp
qed












section \<open>The example project, loaded and updated\<close>

lemma demo_loaded_state:
  "demo_loaded =
     \<lparr>glob = exact_glob, meltano_file_path = ''meltano.yml'',
      meltano_cache = Map
        [(''version'', Scalar (SInt 1)),
         (''include_paths'', Seq [Scalar (SStr ''a.yml''), Scalar (SStr ''b.yml'')]),
         (''schedules'', Seq [named ''hourly'' ''root''])],
      plugin_file_map =
        [[SStr ''plugins'', SStr ''extractors'', SStr ''tap-csv''] \<mapsto> ''a.yml'',
         [SStr ''schedules'', SStr ''daily''] \<mapsto> ''a.yml'',
         [SStr ''schedules'', SStr ''weekly''] \<mapsto> ''b.yml''],
      fs = demo_fs, critical_log = []\<rparr>"
  by (simp add: demo_loaded_def demo_def demo_fs_def load_eval)


section \<open>C2: the merge rule\<close>

text \<open>
  Claim C2, as stated, promises a merged document for every root document and every
  list of included documents. \<open>deep_merge\<close> returns none when a key that already holds a
  scalar (or a mapping) meets a sequence: \<open>node.extend\<close> raises \<open>AttributeError\<close>. And an
  empty mapping merged onto a scalar leaves the scalar in place.
\<close>

theorem deep_merge_kind_clash_counterexample:
  "deep_merge (Map [(''schedules'', Scalar (SStr ''daily''))])
     [Map [(''schedules'', Seq [Map [(''name'', Scalar (SStr ''B''))]])]] = Inl AttributeError
   \<and> deep_merge (Map [(''a'', Scalar (SInt 1))]) [Map [(''a'', Map [])]]
       = Inr (Map [(''a'', Scalar (SInt 1))])"
  by (simp add: setdefault_def)

text \<open>
  C2, amended: whenever \<open>deep_merge\<close> returns (the children being dicts, each key once),
  the result is a mapping in which, for every key \<open>k\<close>:
  \<^item> a key that no child declares keeps the root's value;
  \<^item> if the last child that declares \<open>k\<close> gives it a scalar, that scalar is the result
    (later values override earlier ones);
  \<^item> if \<open>k\<close> holds a sequence wherever it is declared, the result is the concatenation
    of the root's items and of each child's items, in the order of the children;
  \<^item> if \<open>k\<close> holds a mapping wherever it is declared, the result is the deep merge of
    the root's mapping with the children's mappings, in the order of the children.

  In particular root \<open>{schedules: [A]}\<close> and child \<open>{schedules: [B]}\<close> give
  \<open>{schedules: [A, B]}\<close>.
\<close>

theorem deep_merge_rule:
  assumes "deep_merge (Map root) (map Map children) = Inr merged"
    and "\<forall>c\<in>set children. distinct (map fst c)"
  shows "(\<exists>m. merged = Map m \<and>
      (\<forall>k.
        ((\<forall>c\<in>set children. map_of c k = None) \<longrightarrow> map_of m k = map_of root k) \<and>
        (\<forall>s. filter (\<lambda>c. map_of c k \<noteq> None) children \<noteq> [] \<and>
             map_of (last (filter (\<lambda>c. map_of c k \<noteq> None) children)) k = Some (Scalar s)
             \<longrightarrow> map_of m k = Some (Scalar s)) \<and>
        ((\<forall>d\<in>set (root # children). seq_or_absent d k) \<and>
         (\<exists>d\<in>set (root # children). map_of d k \<noteq> None)
           \<longrightarrow> map_of m k = Some (Seq (concat (map (\<lambda>d. seq_at d k) (root # children))))) \<and>
        ((\<forall>d\<in>set (root # children). map_or_absent d k) \<and>
         (\<exists>d\<in>set (root # children). map_of d k \<noteq> None)
           \<longrightarrow> deep_merge (Map (map_at root k)) (map (\<lambda>c. Map (map_at c k)) children)
                 = Inr (Map (map_at m k))
               \<and> map_of m k = Some (Map (map_at m k)))))
    \<and> deep_merge (Map [(''schedules'', Seq [A])]) [Map [(''schedules'', Seq [B])]]
        = Inr (Map [(''schedules'', Seq [A, B])])"
proof (rule conjI)
  from deep_merge_Map[OF assms(1)] obtain m where m: "merged = Map m" by blast
  note dm = assms(1)[unfolded m]
  have "\<forall>k.
        ((\<forall>c\<in>set children. map_of c k = None) \<longrightarrow> map_of m k = map_of root k) \<and>
        (\<forall>s. filter (\<lambda>c. map_of c k \<noteq> None) children \<noteq> [] \<and>
             map_of (last (filter (\<lambda>c. map_of c k \<noteq> None) children)) k = Some (Scalar s)
             \<longrightarrow> map_of m k = Some (Scalar s)) \<and>
        ((\<forall>d\<in>set (root # children). seq_or_absent d k) \<and>
         (\<exists>d\<in>set (root # children). map_of d k \<noteq> None)
           \<longrightarrow> map_of m k = Some (Seq (concat (map (\<lambda>d. seq_at d k) (root # children))))) \<and>
        ((\<forall>d\<in>set (root # children). map_or_absent d k) \<and>
         (\<exists>d\<in>set (root # children). map_of d k \<noteq> None)
           \<longrightarrow> deep_merge (Map (map_at root k)) (map (\<lambda>c. Map (map_at c k)) children)
                 = Inr (Map (map_at m k))
               \<and> map_of m k = Some (Map (map_at m k)))"
  proof (intro allI conjI impI)
    fix k assume "\<forall>c\<in>set children. map_of c k = None"
    with deep_merge_untouched[OF dm assms(2)] show "map_of m k = map_of root k" by blast
  next
    fix k s
    assume "filter (\<lambda>c. map_of c k \<noteq> None) children \<noteq> [] \<and>
      map_of (last (filter (\<lambda>c. map_of c k \<noteq> None) children)) k = Some (Scalar s)"
    then show "map_of m k = Some (Scalar s)"
      using deep_merge_scalar[OF dm assms(2)] by blast
  next
    fix k
    assume "(\<forall>d\<in>set (root # children). seq_or_absent d k) \<and>
         (\<exists>d\<in>set (root # children). map_of d k \<noteq> None)"
    then show "map_of m k = Some (Seq (concat (map (\<lambda>d. seq_at d k) (root # children))))"
      using deep_merge_seq[OF dm assms(2)] by blast
  next
    fix k
    assume "(\<forall>d\<in>set (root # children). map_or_absent d k) \<and>
         (\<exists>d\<in>set (root # children). map_of d k \<noteq> None)"
    then show "deep_merge (Map (map_at root k)) (map (\<lambda>c. Map (map_at c k)) children)
                 = Inr (Map (map_at m k))"
      using deep_merge_map_aux[OF dm assms(2)] by blast
  next
    fix k
    assume a: "(\<forall>d\<in>set (root # children). map_or_absent d k) \<and>
         (\<exists>d\<in>set (root # children). map_of d k \<noteq> None)"
    then have all: "\<forall>d\<in>set (root # children). map_or_absent d k" by (rule conjunct1)
    note aux = deep_merge_map_aux[OF dm assms(2) all]
    from aux have moa: "map_or_absent m k" by (rule conjunct1)
    from aux have "(map_of m k = None) = (\<forall>d\<in>set (root # children). map_of d k = None)"
      by (rule conjunct2[OF conjunct2])
    with a obtain v where v: "map_of m k = Some v" by fastforce
    with moa obtain x where "v = Map x" by (cases v) (simp_all add: map_or_absent_def)
    with v show "map_of m k = Some (Map (map_at m k))" by (simp add: map_at_def)
  qed
  with m show "\<exists>m. merged = Map m \<and> (\<forall>k.
        ((\<forall>c\<in>set children. map_of c k = None) \<longrightarrow> map_of m k = map_of root k) \<and>
        (\<forall>s. filter (\<lambda>c. map_of c k \<noteq> None) children \<noteq> [] \<and>
             map_of (last (filter (\<lambda>c. map_of c k \<noteq> None) children)) k = Some (Scalar s)
             \<longrightarrow> map_of m k = Some (Scalar s)) \<and>
        ((\<forall>d\<in>set (root # children). seq_or_absent d k) \<and>
         (\<exists>d\<in>set (root # children). map_of d k \<noteq> None)
           \<longrightarrow> map_of m k = Some (Seq (concat (map (\<lambda>d. seq_at d k) (root # children))))) \<and>
        ((\<forall>d\<in>set (root # children). map_or_absent d k) \<and>
         (\<exists>d\<in>set (root # children). map_of d k \<noteq> None)
           \<longrightarrow> deep_merge (Map (map_at root k)) (map (\<lambda>c. Map (map_at c k)) children)
                 = Inr (Map (map_at m k))
               \<and> map_of m k = Some (Map (map_at m k))))" by blast
next
  show "deep_merge (Map [(''schedules'', Seq [A])]) [Map [(''schedules'', Seq [B])]]
        = Inr (Map [(''schedules'', Seq [A, B])])"
    by (simp add: setdefault_def)
qed

theorem deep_merge_rule_witness:
  "deep_merge
     (Map [(''version'', Scalar (SInt 1)),
           (''schedules'', Seq [Map [(''name'', Scalar (SStr ''A''))]])])
     (map Map [[(''schedules'', Seq [Map [(''name'', Scalar (SStr ''B''))]]),
                (''version'', Scalar (SInt 2))]])
   = Inr (Map [(''version'', Scalar (SInt 2)),
               (''schedules'', Seq [Map [(''name'', Scalar (SStr ''A''))],
                                    Map [(''name'', Scalar (SStr ''B''))]])])
   \<and> distinct (map fst [(''schedules'', Seq [Map [(''name'', Scalar (SStr ''B''))]]),
                          (''version'', Scalar (SInt 2))])
   \<and> (\<exists>m. m = [(''version'', Scalar (SInt 2)),
               (''schedules'', Seq [Map [(''name'', Scalar (SStr ''A''))],
                                    Map [(''name'', Scalar (SStr ''B''))]])]
        \<and> map_of m ''schedules''
            = Some (Seq (concat (map (\<lambda>d. seq_at d ''schedules'')
                 ([(''version'', Scalar (SInt 1)),
                   (''schedules'', Seq [Map [(''name'', Scalar (SStr ''A''))]])] #
                  [[(''schedules'', Seq [Map [(''name'', Scalar (SStr ''B''))]]),
                    (''version'', Scalar (SInt 2))]])))))"
proof -
  have h1: "deep_merge
     (Map [(''version'', Scalar (SInt 1)),
           (''schedules'', Seq [Map [(''name'', Scalar (SStr ''A''))]])])
     (map Map [[(''schedules'', Seq [Map [(''name'', Scalar (SStr ''B''))]]),
                (''version'', Scalar (SInt 2))]])
   = Inr (Map [(''version'', Scalar (SInt 2)),
               (''schedules'', Seq [Map [(''name'', Scalar (SStr ''A''))],
                                    Map [(''name'', Scalar (SStr ''B''))]])])"
    by (simp add: setdefault_def)
  have h2: "\<forall>c\<in>set [[(''schedules'', Seq [Map [(''name'', Scalar (SStr ''B''))]]),
                  (''version'', Scalar (SInt (2::int)))]]. distinct (map fst c)"
    by simp
  from deep_merge_rule[OF h1 h2] h1 h2 show ?thesis
    by (simp add: seq_at_def)
qed

section \<open>C7: what include resolution returns\<close>

text \<open>
  Claim C7. The host's expansion of one pattern yields each match once (as
  \<open>Path.glob\<close> does). Then, when every match is a regular file, resolution returns, leaves
  the state as it was, and the resolved list is the list of all matches in pattern order
  without the root file and without repetitions, each path at the place of its first
  occurrence. So the root file is never in it, and every other match is in it exactly
  once.
\<close>

theorem resolve_include_paths_result:
  assumes "\<forall>pattern\<in>set patterns. distinct (glob s (fs s) pattern)"
    and "\<forall>p\<in>set (all_matches s patterns). is_file (fs s) p"
  shows "resolve_include_paths (map (\<lambda>p. Scalar (SStr p)) patterns) s =
           (Inr (first_occurrences
                   (filter (\<lambda>p. p \<noteq> meltano_file_path s) (all_matches s patterns))), s)
    \<and> meltano_file_path s \<notin> set (first_occurrences
           (filter (\<lambda>p. p \<noteq> meltano_file_path s) (all_matches s patterns)))
    \<and> distinct (first_occurrences
           (filter (\<lambda>p. p \<noteq> meltano_file_path s) (all_matches s patterns)))
    \<and> set (first_occurrences
           (filter (\<lambda>p. p \<noteq> meltano_file_path s) (all_matches s patterns)))
        = set (all_matches s patterns) - {meltano_file_path s}"
proof -
  let ?L = "filter (\<lambda>p. p \<noteq> meltano_file_path s) (all_matches s patterns)"
  from assms(2)
  have v: "\<forall>pattern\<in>set patterns. \<forall>p\<in>set (glob s (fs s) pattern). is_file (fs s) p"
    by (auto simp: all_matches_def)
  from assms(1) have d: "\<forall>g\<in>set (map (glob s (fs s)) patterns). distinct g" by simp
  have "collect (meltano_file_path s) [] (map (glob s (fs s)) patterns) = ?L"
    using collect_distinct[OF _ d, of "meltano_file_path s" "[]"] by (simp add: all_matches_def)
  then have r: "resolve_include_paths (map (\<lambda>p. Scalar (SStr p)) patterns) s
      = (Inr (first_occurrences ?L), s)"
    by (simp add: resolve_include_paths_def resolve_patterns_valid[OF v]
        fromkeys_first_occurrences)
  have s: "set (first_occurrences ?L) = set ?L"
    by (simp add: fromkeys_first_occurrences[symmetric] set_fromkeys)
  have dd: "distinct (first_occurrences ?L)"
    by (simp add: fromkeys_first_occurrences[symmetric] distinct_fromkeys)
  from s have n: "meltano_file_path s \<notin> set (first_occurrences ?L)" by simp
  from s have e: "set (first_occurrences ?L) = set (all_matches s patterns) - {meltano_file_path s}"
    by auto
  from r n dd e show ?thesis by (intro conjI)
qed

theorem resolve_include_paths_result_witness:
  "distinct (glob demo (fs demo) ''b.yml'') \<and> distinct (glob demo (fs demo) ''meltano.yml'')
   \<and> distinct (glob demo (fs demo) ''a.yml'')
   \<and> all_matches demo [''b.yml'', ''meltano.yml'', ''a.yml'', ''b.yml'']
       = [''b.yml'', ''meltano.yml'', ''a.yml'', ''b.yml'']
   \<and> is_file (fs demo) ''b.yml'' \<and> is_file (fs demo) ''meltano.yml''
   \<and> is_file (fs demo) ''a.yml''
   \<and> resolve_include_paths
        (map (\<lambda>p. Scalar (SStr p)) [''b.yml'', ''meltano.yml'', ''a.yml'', ''b.yml'']) demo
       = (Inr [''b.yml'', ''a.yml''], demo)"
proof -
  have h1: "\<forall>pattern\<in>set [''b.yml'', ''meltano.yml'', ''a.yml'', ''b.yml''].
      distinct (glob demo (fs demo) pattern)"
    by (simp add: demo_def exact_glob_def)
  have m: "all_matches demo [''b.yml'', ''meltano.yml'', ''a.yml'', ''b.yml'']
       = [''b.yml'', ''meltano.yml'', ''a.yml'', ''b.yml'']"
    by (simp add: all_matches_def demo_def demo_fs_def exact_glob_def)
  have f: "is_file (fs demo) ''b.yml''" "is_file (fs demo) ''meltano.yml''"
    "is_file (fs demo) ''a.yml''"
    by (simp_all add: is_file_def demo_def demo_fs_def)
  have h2: "\<forall>p\<in>set (all_matches demo [''b.yml'', ''meltano.yml'', ''a.yml'', ''b.yml'']).
      is_file (fs demo) p"
    using f by (simp add: m)
  have fo: "first_occurrences (filter (\<lambda>p. p \<noteq> meltano_file_path demo)
        [''b.yml'', ''meltano.yml'', ''a.yml'', ''b.yml'']) = [''b.yml'', ''a.yml'']"
    by (simp add: first_occurrences_def demo_def upt_rec)
  from resolve_include_paths_result[OF h1 h2] h1 m f fo show ?thesis by simp
qed

section \<open>C9: an invalid include path aborts the resolution\<close>

text \<open>
  Claim C9. When some pattern matches a path that is not a regular file, resolution
  returns no list: it raises \<open>InvalidIncludePath\<close> for the first such match, in pattern
  order. The exception's message is built from that path, and determines it; the same
  path is logged, and nothing else in the state changes.
\<close>

theorem invalid_include_path_aborts:
  assumes "\<exists>p\<in>set (all_matches s patterns). \<not> is_file (fs s) p"
  shows "\<exists>p. p = hd (filter (\<lambda>p. \<not> is_file (fs s) p) (all_matches s patterns))
    \<and> p \<in> set (all_matches s patterns) \<and> \<not> is_file (fs s) p
    \<and> resolve_include_paths (map (\<lambda>p. Scalar (SStr p)) patterns) s =
        (Inl (InvalidIncludePath (not_found_message p)),
         s\<lparr>critical_log := critical_log s @ [invalid_message p (not_found_message p)]\<rparr>)
    \<and> (\<forall>q. not_found_message q = not_found_message p \<longrightarrow> q = p)"
proof -
  let ?bad = "filter (\<lambda>p. \<not> is_file (fs s) p) (all_matches s patterns)"
  from assms have ne: "?bad \<noteq> []" by (simp add: filter_empty_conv)
  then have "hd ?bad \<in> set ?bad" by (rule hd_in_set)
  then have m: "hd ?bad \<in> set (all_matches s patterns)" and b: "\<not> is_file (fs s) (hd ?bad)"
    by simp_all
  have r: "resolve_include_paths (map (\<lambda>p. Scalar (SStr p)) patterns) s =
        (Inl (InvalidIncludePath (not_found_message (hd ?bad))),
         s\<lparr>critical_log := critical_log s @
            [invalid_message (hd ?bad) (not_found_message (hd ?bad))]\<rparr>)"
    by (simp add: resolve_include_paths_def resolve_patterns_invalid[OF assms])
  have i: "\<forall>q. not_found_message q = not_found_message (hd ?bad) \<longrightarrow> q = hd ?bad"
    by (auto dest: not_found_message_inj)
  from m b r i show ?thesis by blast
qed

theorem invalid_include_path_aborts_witness:
  "all_matches demo [''a.yml'', ''logs'', ''b.yml''] = [''a.yml'', ''logs'', ''b.yml'']
   \<and> \<not> is_file (fs demo) ''logs''
   \<and> resolve_include_paths (map (\<lambda>p. Scalar (SStr p)) [''a.yml'', ''logs'', ''b.yml'']) demo =
        (Inl (InvalidIncludePath (not_found_message ''logs'')),
         demo\<lparr>critical_log := [invalid_message ''logs'' (not_found_message ''logs'')]\<rparr>)"
proof -
  have m: "all_matches demo [''a.yml'', ''logs'', ''b.yml''] = [''a.yml'', ''logs'', ''b.yml'']"
    by (simp add: all_matches_def demo_def demo_fs_def exact_glob_def)
  have f: "\<not> is_file (fs demo) ''logs''" "is_file (fs demo) ''a.yml''"
    by (simp_all add: is_file_def demo_def demo_fs_def)
  have h: "\<exists>p\<in>set (all_matches demo [''a.yml'', ''logs'', ''b.yml'']). \<not> is_file (fs demo) p"
    using f by (simp add: m)
  have c: "critical_log demo = []" by (simp add: demo_def)
  from invalid_include_path_aborts[OF h] m f c show ?thesis by simp
qed

section \<open>C5: duplicate keys among include files\<close>




section \<open>C6: duplicates that involve the root file\<close>

text \<open>
  Claim C6, as stated, makes \<open>load\<close> fail when the root file declares a key twice, or a
  key that an include file declares too. \<open>_load_included_files\<close> indexes the include
  files only, so such a project loads: the composite holds all three schedules named
  \<open>daily\<close>.
\<close>

theorem root_duplicate_counterexample:
  "fst (load root_dup) =
     Inr (Map [(''include_paths'', Seq [Scalar (SStr ''a.yml'')]),
               (''schedules'',
                Seq [named ''daily'' ''root'', named ''daily'' ''root again'',
                     named ''daily'' ''a''])])"
  by (simp add: root_dup_def load_eval)

text \<open>
  C6, amended: keys have to be unique among the include files only. Let the root file
  hold a document whose patterns resolve to the include list, and every include file hold
  a well-formed document. If no key is declared twice among the include files, \<open>load\<close>
  returns whatever \<open>deep_merge\<close> makes of the root document and the include documents,
  with no condition on the entities that the root declares; the index then holds the keys
  of the include files, each with the include file that declares it.
\<close>

theorem load_checks_includes_only:
  assumes "fs s (meltano_file_path s) = Some (Yaml (Map r))" and "patterns_of r pats"
    and "\<forall>p\<in>set (all_matches s pats). is_file (fs s) p"
    and "\<forall>p\<in>set (resolved s pats). is_doc (fs s) p \<and> wf_doc (doc_at (fs s) p)"
    and "distinct (map fst (index_entries (fs s) (resolved s pats)))"
  shows "\<exists>s'. load s =
       (deep_merge (Map r) (map (\<lambda>p. Map (doc_at (fs s) p)) (resolved s pats)), s')
     \<and> fs s' = fs s
     \<and> (\<forall>k f. plugin_file_map s' k = Some f \<longleftrightarrow>
          f \<in> set (resolved s pats) \<and> k \<in> set (declared_keys (doc_at (fs s) f)))"
proof -
  let ?es = "index_entries (fs s) (resolved s pats)"
  have mem: "\<And>k p. (k, p) \<in> set ?es \<longleftrightarrow>
      p \<in> set (resolved s pats) \<and> k \<in> set (declared_keys (doc_at (fs s) p))"
    by (auto simp: index_entries_def)
  have "\<And>k f. map_of ?es k = Some f \<longleftrightarrow> (k, f) \<in> set ?es"
    using assms(5) by (auto dest: map_of_SomeD intro: map_of_is_SomeI)
  with mem have "\<forall>k f. map_of ?es k = Some f \<longleftrightarrow>
      f \<in> set (resolved s pats) \<and> k \<in> set (declared_keys (doc_at (fs s) f))" by simp
  with load_indexed[OF assms] show ?thesis by simp
qed

theorem load_checks_includes_only_witness:
  "resolved root_dup [''a.yml''] = [''a.yml'']
   \<and> index_entries (fs root_dup) [''a.yml''] = [([SStr ''schedules'', SStr ''daily''], ''a.yml'')]
   \<and> (\<exists>s'. load root_dup =
         (Inr (Map [(''include_paths'', Seq [Scalar (SStr ''a.yml'')]),
                    (''schedules'',
                     Seq [named ''daily'' ''root'', named ''daily'' ''root again'',
                          named ''daily'' ''a''])]), s')
        \<and> plugin_file_map s' [SStr ''schedules'', SStr ''daily''] = Some ''a.yml'')"
proof -
  let ?r = "[(''include_paths'', Seq [Scalar (SStr ''a.yml'')]),
             (''schedules'', Seq [named ''daily'' ''root'', named ''daily'' ''root again''])]"
  have rs: "resolved root_dup [''a.yml''] = [''a.yml'']"
    by (simp add: root_dup_def vocab_eval)
  have ie: "index_entries (fs root_dup) [''a.yml'']
      = [([SStr ''schedules'', SStr ''daily''], ''a.yml'')]"
    by (simp add: root_dup_def vocab_eval)
  have h1: "fs root_dup (meltano_file_path root_dup) = Some (Yaml (Map ?r))"
    by (simp add: root_dup_def)
  have h2: "patterns_of ?r [''a.yml'']" by (simp add: patterns_of_def)
  have h3: "\<forall>p\<in>set (all_matches root_dup [''a.yml'']). is_file (fs root_dup) p"
    by (simp add: root_dup_def vocab_eval)
  have h4: "\<forall>p\<in>set (resolved root_dup [''a.yml'']).
      is_doc (fs root_dup) p \<and> wf_doc (doc_at (fs root_dup) p)"
    unfolding rs by (simp add: root_dup_def vocab_eval)
  have h5: "distinct (map fst (index_entries (fs root_dup) (resolved root_dup [''a.yml''])))"
    unfolding rs ie by simp
  have dk: "declared_keys (doc_at (fs root_dup) ''a.yml'') = [[SStr ''schedules'', SStr ''daily'']]"
    by (simp add: root_dup_def vocab_eval)
  have dm: "deep_merge (Map ?r) (map (\<lambda>p. Map (doc_at (fs root_dup) p)) [''a.yml''])
     = Inr (Map [(''include_paths'', Seq [Scalar (SStr ''a.yml'')]),
                    (''schedules'',
                     Seq [named ''daily'' ''root'', named ''daily'' ''root again'',
                          named ''daily'' ''a''])])"
    by (simp add: root_dup_def doc_at_def setdefault_def)
  from load_checks_includes_only[OF h1 h2 h3 h4 h5] obtain s' where
    l: "load root_dup = (deep_merge (Map ?r)
          (map (\<lambda>p. Map (doc_at (fs root_dup) p)) (resolved root_dup [''a.yml''])), s')"
    and ix: "\<forall>k f. plugin_file_map s' k = Some f \<longleftrightarrow>
          f \<in> set (resolved root_dup [''a.yml''])
          \<and> k \<in> set (declared_keys (doc_at (fs root_dup) f))"
    by blast
  from ix have "plugin_file_map s' [SStr ''schedules'', SStr ''daily''] = Some ''a.yml''"
    by (simp add: rs dk)
  with l rs ie dm show ?thesis by auto
qed

section \<open>C8: include files left without entities are blanked\<close>



section \<open>C10: a configuration that leaves the root file without a group\<close>

text \<open>
  Claim C10. Let the configuration be a well-formed dict. If the split assigns nothing to
  the root file (no top-level key other than the three collections, and no entity whose
  key the index lacks or maps to the root file), then \<open>update\<close> raises
  \<open>KeyError\<close> on the root path, from the subscription \<open>file_dicts[...]\<close> after the loop,
  and the state, files included, is as before. Conversely, whenever \<open>update\<close> returns,
  the split has given the root file a group.
\<close>

theorem update_without_root_group:
  assumes "distinct (map fst items)" and "wf_doc items"
    and "meltano_file_path s \<notin> set (assigned_files s items)"
  shows "update (Map items) s = (Inl (KeyError (meltano_file_path s)), s)
    \<and> (\<forall>c r s'. update c s = (Inr r, s') \<longrightarrow>
          (\<exists>fds. split_config_dict s c = Inr fds \<and> meltano_file_path s \<in> fst ` set fds))"
proof
  have sp: "split_items s [] items = Inr (foldl (put_item s) [] items)"
    by (rule split_items_put[OF _ wf_doc_items[OF assms(1,2)]]) (simp add: wf_groups_def)
  from assms(3) have "meltano_file_path s \<notin> fst ` set (foldl (put_item s) [] items)"
    by (simp add: foldl_put_item_dom)
  then have "map_of (foldl (put_item s) [] items) (meltano_file_path s) = None"
    by (simp add: map_of_eq_None_iff)
  with sp show "update (Map items) s = (Inl (KeyError (meltano_file_path s)), s)"
    by (simp add: update_def split_config_dict_def py_items_def)
next
  show "\<forall>c r s'. update c s = (Inr r, s') \<longrightarrow>
          (\<exists>fds. split_config_dict s c = Inr fds \<and> meltano_file_path s \<in> fst ` set fds)"
  proof (intro allI impI)
    fix c r s' assume "update c s = (Inr r, s')"
    from update_Inr[OF this] obtain fds where sp: "split_config_dict s c = Inr fds" by blast
    from split_config_dict_Inr[OF sp] have "map_of fds (meltano_file_path s) \<noteq> None" by blast
    then have "meltano_file_path s \<in> fst ` set fds" by (simp add: map_of_eq_None_iff)
    with sp show "\<exists>fds. split_config_dict s c = Inr fds \<and> meltano_file_path s \<in> fst ` set fds"
      by blast
  qed
qed

theorem update_without_root_group_witness:
  "distinct (map fst weekly_only) \<and> wf_doc weekly_only
   \<and> assigned_files demo_loaded weekly_only = [''b.yml'']
   \<and> meltano_file_path demo_loaded = ''meltano.yml''
   \<and> update (Map weekly_only) demo_loaded = (Inl (KeyError ''meltano.yml''), demo_loaded)"
proof -
  have h1: "distinct (map fst weekly_only)" by (simp add: weekly_only_def)
  have h2: "wf_doc weekly_only" by (simp add: weekly_only_def vocab_eval)
  have a: "assigned_files demo_loaded weekly_only = [''b.yml'']"
    by (simp add: assigned_files_def item_files_def weekly_only_def demo_loaded_state
        file_of_def items_of_def name_of_def named_def)
  have m: "meltano_file_path demo_loaded = ''meltano.yml''"
    by (simp add: demo_loaded_state)
  have h3: "meltano_file_path demo_loaded \<notin> set (assigned_files demo_loaded weekly_only)"
    by (simp add: a m)
  from update_without_root_group[OF h1 h2 h3] h1 h2 a m show ?thesis by simp
qed

section \<open>C3: an indexed entity goes back to its include file\<close>



section \<open>C4: an entity that the index lacks goes to the root file\<close>



end
